theory Spec2Isabelle
  imports Main "HOL-Library.Sublist" "HOL-Library.Word"
begin

section \<open>JavaScript values\<close>

text \<open>
  A JavaScript string is a sequence of 16-bit code units. \<open>js\<close> writes an ASCII
  literal; other literals are given by their code units.
\<close>

type_synonym jsstring = "16 word list"

definition js :: "string \<Rightarrow> jsstring" where
  "js s = map of_char s"

text \<open>
  \<open>String.prototype.toLowerCase\<close> belongs to the platform, not to the repository. Every
  function below that calls it takes the lower-casing function as its first argument
  \<open>lc\<close>, and the general theorems hold for every such function. The concrete
  evaluations use \<open>toLowerCaseBasic\<close>, which agrees with the platform on strings made of
  Basic Latin letters and of code units without case (CJK ideographs, digits,
  punctuation).
\<close>

definition toLowerCaseUnit :: "16 word \<Rightarrow> 16 word" where
  "toLowerCaseUnit c = (if 0x41 \<le> c \<and> c \<le> 0x5A then c + 0x20 else c)"

definition toLowerCaseBasic :: "jsstring \<Rightarrow> jsstring" where
  "toLowerCaseBasic s = map toLowerCaseUnit s"

text \<open>\<open>s.includes(t)\<close> on strings: \<open>t\<close> occurs in \<open>s\<close> as a contiguous run.\<close>

fun strIncludes :: "'a list \<Rightarrow> 'a list \<Rightarrow> bool" where
  "strIncludes [] t = (t = [])"
| "strIncludes (c # s) t = (prefix t (c # s) \<or> strIncludes s t)"

text \<open>\<open>xs.join(sep)\<close>.\<close>

fun join :: "'a list \<Rightarrow> 'a list list \<Rightarrow> 'a list" where
  "join sep [] = []"
| "join sep [x] = x"
| "join sep (x # y # ys) = x @ sep @ join sep (y # ys)"

text \<open>
  \<open>Set\<close> and \<open>Map\<close> iterate in insertion order: a set is the list of its elements in
  the order they were first added, a map the list of its entries in the order their keys
  were first set.
\<close>

type_synonym 'a jsset = "'a list"

definition setHas :: "'a jsset \<Rightarrow> 'a \<Rightarrow> bool" where
  "setHas s x = (x \<in> set s)"

definition setAdd :: "'a \<Rightarrow> 'a jsset \<Rightarrow> 'a jsset" where
  "setAdd x s = (if setHas s x then s else s @ [x])"

type_synonym ('k, 'v) jsmap = "('k \<times> 'v) list"

definition mapGet :: "('k, 'v) jsmap \<Rightarrow> 'k \<Rightarrow> 'v option" where
  "mapGet m k = map_of m k"

definition mapHas :: "('k, 'v) jsmap \<Rightarrow> 'k \<Rightarrow> bool" where
  "mapHas m k = (map_of m k \<noteq> None)"

fun mapSet :: "'k \<Rightarrow> 'v \<Rightarrow> ('k, 'v) jsmap \<Rightarrow> ('k, 'v) jsmap" where
  "mapSet k v [] = [(k, v)]"
| "mapSet k v ((k', v') # m) =
     (if k' = k then (k, v) # m else (k', v') # mapSet k v m)"

text \<open>
  A \<open>forEach\<close> whose body can throw: the loop stops at the first exception
  (\<open>None\<close>).
\<close>

fun forEachM :: "('a \<Rightarrow> 's \<Rightarrow> 's option) \<Rightarrow> 'a list \<Rightarrow> 's \<Rightarrow> 's option" where
  "forEachM body [] s = Some s"
| "forEachM body (x # xs) s =
     (case body x s of None \<Rightarrow> None | Some s' \<Rightarrow> forEachM body xs s')"

section \<open>Subscription store (schemas/subscriber.schema.ts, DatabaseService)\<close>

record KeywordFilter =
  keyword :: jsstring
  messageTypes :: "jsstring list"

record SubscriberConfig =
  channelId :: jsstring
  keywordFilters :: "KeywordFilter list"

text \<open>
  The collection of subscriber documents, in the order the store returns them, each a
  user id with its configuration (the timestamps play no part in any operation below and
  are left out). The driver is taken to succeed: every operation of the service catches
  and logs a driver error and then carries on.
\<close>

type_synonym collection = "(jsstring \<times> SubscriberConfig) list"

definition findOne :: "collection \<Rightarrow> jsstring \<Rightarrow> SubscriberConfig option" where
  "findOne db userId = map_of db userId"

fun deleteOne :: "jsstring \<Rightarrow> collection \<Rightarrow> collection" where
  "deleteOne userId [] = []"
| "deleteOne userId ((u, c) # db) =
     (if u = userId then db else (u, c) # deleteOne userId db)"

text \<open>\<open>findOneAndUpdate\<close> with \<open>upsert: true\<close>.\<close>

fun findOneAndUpdate :: "jsstring \<Rightarrow> SubscriberConfig \<Rightarrow> collection \<Rightarrow> collection" where
  "findOneAndUpdate userId c [] = [(userId, c)]"
| "findOneAndUpdate userId c ((u, c') # db) =
     (if u = userId then (u, c) # db else (u, c') # findOneAndUpdate userId c db)"

definition getSubscriber :: "collection \<Rightarrow> jsstring \<Rightarrow> SubscriberConfig option" where
  "getSubscriber db userId = findOne db userId"

definition removeSubscriber :: "jsstring \<Rightarrow> collection \<Rightarrow> collection" where
  "removeSubscriber userId db = deleteOne userId db"

definition saveSubscriberWithFilters ::
  "jsstring \<Rightarrow> jsstring \<Rightarrow> KeywordFilter list \<Rightarrow> bool \<Rightarrow> collection \<Rightarrow> collection" where
  "saveSubscriberWithFilters userId chan filters merge db =
     (let finalKeywordFilters =
            (if merge
             then (case findOne db userId of
                     Some existing \<Rightarrow> filters
                   | None \<Rightarrow> filters)
             else filters)
      in findOneAndUpdate userId
           \<lparr>channelId = chan, keywordFilters = finalKeywordFilters\<rparr> db)"

definition getAllSubscribers :: "collection \<Rightarrow> (jsstring, SubscriberConfig) jsmap" where
  "getAllSubscribers db = fold (\<lambda>(u, c) m. mapSet u c m) db []"

section \<open>Subscription engine (SubscriberService)\<close>

subsection \<open>mergeKeywordFilters\<close>

text \<open>
  \<open>keywordMap.get(lowerKeyword)!.add(type)\<close> for every type of a filter. The
  non-null assertion is a \<open>TypeError\<close> when the key is missing, modelled as
  \<open>None\<close>.
\<close>

fun addTypes ::
  "jsstring \<Rightarrow> jsstring list \<Rightarrow> (jsstring, jsstring jsset) jsmap
     \<Rightarrow> (jsstring, jsstring jsset) jsmap option" where
  "addTypes k [] m = Some m"
| "addTypes k (t # ts) m =
     (case mapGet m k of
        None \<Rightarrow> None
      | Some s \<Rightarrow> addTypes k ts (mapSet k (setAdd t s) m))"

text \<open>The body of the two loops that fill \<open>keywordMap\<close>.\<close>

definition collectFilter ::
  "(jsstring \<Rightarrow> jsstring) \<Rightarrow> KeywordFilter \<Rightarrow> (jsstring, jsstring jsset) jsmap
     \<Rightarrow> (jsstring, jsstring jsset) jsmap option" where
  "collectFilter lc f m =
     (let lowerKeyword = lc (keyword f);
          m' = (if \<not> mapHas m lowerKeyword then mapSet lowerKeyword [] m else m)
      in addTypes lowerKeyword (messageTypes f) m')"

text \<open>
  The body of the two loops that build \<open>result\<close>; the state is \<open>result\<close> with
  \<open>processedKeywords\<close>.
\<close>

definition emitFilter ::
  "(jsstring \<Rightarrow> jsstring) \<Rightarrow> (jsstring, jsstring jsset) jsmap \<Rightarrow> KeywordFilter
     \<Rightarrow> KeywordFilter list \<times> jsstring jsset
     \<Rightarrow> (KeywordFilter list \<times> jsstring jsset) option" where
  "emitFilter lc keywordMap f st =
     (let lowerKeyword = lc (keyword f) in
      if \<not> setHas (snd st) lowerKeyword
      then (case mapGet keywordMap lowerKeyword of
              None \<Rightarrow> None
            | Some types \<Rightarrow>
                Some (fst st @ [\<lparr>keyword = keyword f, messageTypes = types\<rparr>],
                      setAdd lowerKeyword (snd st)))
      else Some st)"

definition mergeKeywordFilters ::
  "(jsstring \<Rightarrow> jsstring) \<Rightarrow> KeywordFilter list \<Rightarrow> KeywordFilter list
     \<Rightarrow> KeywordFilter list option" where
  "mergeKeywordFilters lc existing newFilters =
     (case forEachM (collectFilter lc) existing [] of
        None \<Rightarrow> None
      | Some m1 \<Rightarrow>
     (case forEachM (collectFilter lc) newFilters m1 of
        None \<Rightarrow> None
      | Some keywordMap \<Rightarrow>
     (case forEachM (emitFilter lc keywordMap) existing ([], []) of
        None \<Rightarrow> None
      | Some st1 \<Rightarrow>
     (case forEachM (emitFilter lc keywordMap) newFilters st1 of
        None \<Rightarrow> None
      | Some st2 \<Rightarrow> Some (fst st2)))))"

subsection \<open>subscribe\<close>

text \<open>
  The request is passed as its three fields. The result is the returned configuration
  with the collection after the call; \<open>None\<close> is an exception out of the merge, before
  anything is saved.
\<close>

definition subscribe ::
  "(jsstring \<Rightarrow> jsstring) \<Rightarrow> jsstring \<Rightarrow> jsstring \<Rightarrow> KeywordFilter list \<Rightarrow> collection
     \<Rightarrow> (SubscriberConfig \<times> collection) option" where
  "subscribe lc userId chan filters db =
     (let existingConfig = getSubscriber db userId;
          shouldMerge = (existingConfig \<noteq> None)
      in case (case existingConfig of
                 Some ex \<Rightarrow> mergeKeywordFilters lc (keywordFilters ex) filters
               | None \<Rightarrow> Some filters) of
           None \<Rightarrow> None
         | Some finalKeywordFilters \<Rightarrow>
             Some (\<lparr>channelId = chan, keywordFilters = finalKeywordFilters\<rparr>,
                   saveSubscriberWithFilters userId chan finalKeywordFilters shouldMerge db))"

subsection \<open>partialUnsubscribe\<close>

record UnsubscribeResult =
  success :: bool
  remainingCount :: nat
  removedItems :: "jsstring list"
  remainingFilters :: "KeywordFilter list"

text \<open>
  The localized type name \<open>t === 'buy' ? ... : ...\<close>: the two-character words
  U+6536 U+8CFC (buying) and U+8CA9 U+552E (selling).
\<close>

definition typeName :: "jsstring \<Rightarrow> jsstring" where
  "typeName t = (if t = js ''buy'' then [0x6536, 0x8CFC] else [0x8CA9, 0x552E])"

text \<open>The removed item of a filter dropped whole: its keyword, then U+5168 U+90E8 (all) in parentheses.\<close>

definition removedAll :: "KeywordFilter \<Rightarrow> jsstring" where
  "removedAll f = keyword f @ js '' ('' @ [0x5168, 0x90E8] @ js '')''"

text \<open>
  The callback of \<open>map\<close> that subtracts the requested types from one filter. The state
  is \<open>hasChanges\<close> with \<open>removedItems\<close>; the value is the mapped element, \<open>None\<close> for
  \<open>null\<close>. The source has this code twice, inside the keyword branch and in the branch
  without keywords.
\<close>

definition subtractTypes ::
  "jsstring list \<Rightarrow> KeywordFilter \<Rightarrow> bool \<times> jsstring list
     \<Rightarrow> KeywordFilter option \<times> (bool \<times> jsstring list)" where
  "subtractTypes types f st =
     (let remainingTypes = filter (\<lambda>t. t \<notin> set types) (messageTypes f);
          removedTypes = filter (\<lambda>t. t \<in> set types) (messageTypes f)
      in if length remainingTypes = 0
         then (None, (True, snd st @ [removedAll f]))
         else if length remainingTypes \<noteq> length (messageTypes f)
         then (Some \<lparr>keyword = keyword f, messageTypes = remainingTypes\<rparr>,
               (True, snd st @ [keyword f @ js '' ('' @
                  join (js '', '') (map typeName removedTypes) @ js '')'']))
         else (Some f, st))"

text \<open>The callback of \<open>map\<close> in the branch with keywords.\<close>

definition removeByKeyword ::
  "(jsstring \<Rightarrow> jsstring) \<Rightarrow> jsstring list \<Rightarrow> jsstring list \<Rightarrow> KeywordFilter
     \<Rightarrow> bool \<times> jsstring list \<Rightarrow> KeywordFilter option \<times> (bool \<times> jsstring list)" where
  "removeByKeyword lc keywordsLower types f st =
     (if lc (keyword f) \<in> set keywordsLower
      then (if length types = 0
            then (None, (True, snd st @ [removedAll f]))
            else subtractTypes types f st)
      else (Some f, st))"

text \<open>\<open>xs.map(callback).filter((x) => x !== null)\<close>, the callback threading its state.\<close>

fun mapFilter ::
  "('a \<Rightarrow> 's \<Rightarrow> 'b option \<times> 's) \<Rightarrow> 'a list \<Rightarrow> 's \<Rightarrow> 'b list \<times> 's" where
  "mapFilter cb [] s = ([], s)"
| "mapFilter cb (x # xs) s =
     (case cb x s of
        (None, s') \<Rightarrow> mapFilter cb xs s'
      | (Some y, s') \<Rightarrow> (case mapFilter cb xs s' of (ys, s'') \<Rightarrow> (y # ys, s'')))"

text \<open>
  The result with the collection after the call. The inner \<open>None\<close> is the early return
  of the branch without keywords, when no message type is given either.
\<close>

definition partialUnsubscribe ::
  "(jsstring \<Rightarrow> jsstring) \<Rightarrow> jsstring \<Rightarrow> jsstring list \<Rightarrow> jsstring list \<Rightarrow> collection
     \<Rightarrow> UnsubscribeResult \<times> collection" where
  "partialUnsubscribe lc userId keywords types db =
     (case getSubscriber db userId of
        None \<Rightarrow>
          (\<lparr>success = False, remainingCount = 0, removedItems = [],
            remainingFilters = []\<rparr>, db)
      | Some existingConfig \<Rightarrow>
          if length (keywordFilters existingConfig) = 0
          then (\<lparr>success = False, remainingCount = 0, removedItems = [],
                 remainingFilters = []\<rparr>, db)
          else
            (case (if length keywords > 0
                   then Some (mapFilter (removeByKeyword lc (map lc keywords) types)
                                (keywordFilters existingConfig) (False, []))
                   else if length types = 0
                   then None
                   else Some (mapFilter (subtractTypes types)
                                (keywordFilters existingConfig) (False, []))) of
               None \<Rightarrow>
                 (\<lparr>success = False,
                   remainingCount = length (keywordFilters existingConfig),
                   removedItems = [],
                   remainingFilters = keywordFilters existingConfig\<rparr>, db)
             | Some (updatedFilters, hasChanges, removed) \<Rightarrow>
                 if \<not> hasChanges
                 then (\<lparr>success = False,
                        remainingCount = length (keywordFilters existingConfig),
                        removedItems = [],
                        remainingFilters = keywordFilters existingConfig\<rparr>, db)
                 else if length updatedFilters = 0
                 then (\<lparr>success = True, remainingCount = 0, removedItems = removed,
                        remainingFilters = []\<rparr>, removeSubscriber userId db)
                 else (\<lparr>success = True, remainingCount = length updatedFilters,
                        removedItems = removed, remainingFilters = updatedFilters\<rparr>,
                       saveSubscriberWithFilters userId (channelId existingConfig)
                         updatedFilters False db)))"

section \<open>Fan-out dispatcher (WebSocketService.broadcastToDiscord)\<close>

record Payload =
  message_type :: jsstring
  channel :: jsstring
  player_name :: jsstring
  player_id :: jsstring
  content :: jsstring

text \<open>The body of \<open>keywordFilters.forEach\<close>; the state is \<open>matchedReasons\<close>.\<close>

definition matchFilter ::
  "(jsstring \<Rightarrow> jsstring) \<Rightarrow> Payload \<Rightarrow> KeywordFilter \<Rightarrow> jsstring list \<Rightarrow> jsstring list" where
  "matchFilter lc payload f matchedReasons =
     (let messageTypeMatches = (message_type payload \<in> set (messageTypes f));
          keywordMatches = strIncludes (lc (content payload)) (lc (keyword f))
      in if messageTypeMatches \<and> keywordMatches
         then matchedReasons @
                [keyword f @ js '' ('' @ typeName (message_type payload) @ js '')'']
         else matchedReasons)"

definition matchReasons ::
  "(jsstring \<Rightarrow> jsstring) \<Rightarrow> Payload \<Rightarrow> KeywordFilter list \<Rightarrow> jsstring list" where
  "matchReasons lc payload filters =
     (if length filters > 0 then fold (matchFilter lc payload) filters [] else [])"

text \<open>
  The body of the loop over the subscribers; the state is
  \<open>channelToUsersWithReasons\<close>. An exception in the body is caught and logged, and the
  loop goes on with the map as it is.
\<close>

definition processSubscriber ::
  "(jsstring \<Rightarrow> jsstring) \<Rightarrow> Payload \<Rightarrow> jsstring \<times> SubscriberConfig
     \<Rightarrow> (jsstring, (jsstring \<times> jsstring) list) jsmap
     \<Rightarrow> (jsstring, (jsstring \<times> jsstring) list) jsmap" where
  "processSubscriber lc payload entry m =
     (let userId = fst entry;
          chan = channelId (snd entry);
          matchedReasons = matchReasons lc payload (keywordFilters (snd entry))
      in if length matchedReasons > 0
         then (let m' = (if \<not> mapHas m chan then mapSet chan [] m else m)
               in case mapGet m' chan of
                    None \<Rightarrow> m'
                  | Some users \<Rightarrow>
                      mapSet chan (users @ [(userId, join (js '', '') matchedReasons)]) m')
         else m)"

definition channelToUsersWithReasons ::
  "(jsstring \<Rightarrow> jsstring) \<Rightarrow> Payload \<Rightarrow> (jsstring, SubscriberConfig) jsmap
     \<Rightarrow> (jsstring, (jsstring \<times> jsstring) list) jsmap" where
  "channelToUsersWithReasons lc payload subscribers =
     fold (processSubscriber lc payload) subscribers []"

text \<open>
  The messages handed to the Discord client, one for each channel group: the channel
  with the text \<open>mentionsWithReasons\<close>. The embed, which is the same for every channel,
  and the delivery itself are left out.
\<close>

definition broadcastToDiscord ::
  "(jsstring \<Rightarrow> jsstring) \<Rightarrow> Payload \<Rightarrow> collection \<Rightarrow> (jsstring \<times> jsstring) list" where
  "broadcastToDiscord lc payload db =
     map (\<lambda>(chan, usersWithReasons).
            (chan, join [0x0A]
               (map (\<lambda>(userId, reason). js ''<@'' @ userId @ js ''> - '' @ reason)
                  usersWithReasons)))
       (channelToUsersWithReasons lc payload (getAllSubscribers db))"

section \<open>Feed listener (WebSocketService)\<close>

record ArtaleMessage =
  mtype :: jsstring
  payload :: "Payload option"

record WebSocketService =
  processedMessageIds :: "jsstring jsset"
  reconnectAttempts :: nat

definition maxReconnectAttempts :: nat where
  "maxReconnectAttempts = 10"

definition baseReconnectDelay :: nat where
  "baseReconnectDelay = 5000"

definition maxReconnectDelay :: nat where
  "maxReconnectDelay = 30000"

text \<open>
  The digest \<open>createHash('md5').update(messageData).digest('hex')\<close> comes from the
  platform: \<open>md5\<close> is an argument, and the theorems hold for every function.
\<close>

definition generateMessageId :: "(jsstring \<Rightarrow> jsstring) \<Rightarrow> Payload option \<Rightarrow> jsstring" where
  "generateMessageId md5 p =
     (case p of
        None \<Rightarrow> []
      | Some pl \<Rightarrow>
          md5 (player_id pl @ js ''-'' @ content pl @ js ''-'' @ message_type pl @
               js ''-'' @ channel pl))"

definition cleanupProcessedMessages :: "WebSocketService \<Rightarrow> WebSocketService" where
  "cleanupProcessedMessages s =
     (if length (processedMessageIds s) > 1000
      then (let idsArray = processedMessageIds s
            in s\<lparr>processedMessageIds :=
                   fold setAdd (drop (length idsArray - 500) idsArray) []\<rparr>)
      else s)"

text \<open>
  The source computes with doubles. The values below the cap are exact, and from the
  third attempt on the product is above the cap (also when it overflows to infinity), so
  the minimum over the natural numbers is the delay of the source.
\<close>

definition calculateReconnectDelay :: "WebSocketService \<Rightarrow> nat" where
  "calculateReconnectDelay s =
     min (baseReconnectDelay * 2 ^ reconnectAttempts s) maxReconnectDelay"

text \<open>What \<open>handleMessage\<close> sets off besides its logging.\<close>

datatype effect = SubscribeToNewMessages | StartPingInterval | BroadcastToDiscord Payload

definition handleMessage ::
  "(jsstring \<Rightarrow> jsstring) \<Rightarrow> ArtaleMessage \<Rightarrow> WebSocketService
     \<Rightarrow> WebSocketService \<times> effect list" where
  "handleMessage md5 message s =
     (if mtype message = js ''connection_info'' then (s, [SubscribeToNewMessages])
      else if mtype message = js ''subscription_confirmed'' then (s, [StartPingInterval])
      else if mtype message = js ''pong'' then (s, [])
      else if mtype message = js ''new_message'' then
        (case payload message of
           None \<Rightarrow> (s, [])
         | Some pl \<Rightarrow>
             (let messageId = generateMessageId md5 (Some pl) in
              if setHas (processedMessageIds s) messageId then (s, [])
              else (cleanupProcessedMessages
                      (s\<lparr>processedMessageIds := setAdd messageId (processedMessageIds s)\<rparr>),
                    [BroadcastToDiscord pl])))
      else (s, []))"

text \<open>
  The handlers of \<open>connect\<close> that touch the attempt counter: \<open>open\<close> resets it,
  \<open>close\<close> schedules a reconnect after the delay (or gives up, \<open>None\<close>), and the timer's
  callback increments it before connecting again.
\<close>

definition onOpen :: "WebSocketService \<Rightarrow> WebSocketService" where
  "onOpen s = s\<lparr>reconnectAttempts := 0\<rparr>"

definition onClose :: "WebSocketService \<Rightarrow> nat option" where
  "onClose s =
     (if reconnectAttempts s < maxReconnectAttempts
      then Some (calculateReconnectDelay s)
      else None)"

definition onReconnectTimeout :: "WebSocketService \<Rightarrow> WebSocketService" where
  "onReconnectTimeout s = s\<lparr>reconnectAttempts := reconnectAttempts s + 1\<rparr>"

text \<open>
  The delays of \<open>n\<close> closes in a row, no connection opening in between: each close is
  followed by its timer's callback when a reconnect was scheduled.
\<close>

fun closeSequence :: "nat \<Rightarrow> WebSocketService \<Rightarrow> nat option list" where
  "closeSequence 0 s = []"
| "closeSequence (Suc n) s =
     (case onClose s of
        None \<Rightarrow> None # closeSequence n s
      | Some d \<Rightarrow> Some d # closeSequence n (onReconnectTimeout s))"

section \<open>Notions used to state the properties\<close>

text \<open>
  A partial-unsubscribe request drops a filter whole: with keywords, when the filter's
  lower-cased keyword is among the lower-cased requested ones and either no type is
  requested or every type of the filter is requested; without keywords, when some type is
  requested and every type of the filter is.
\<close>

definition dropsFilter ::
  "(jsstring \<Rightarrow> jsstring) \<Rightarrow> jsstring list \<Rightarrow> jsstring list \<Rightarrow> KeywordFilter \<Rightarrow> bool" where
  "dropsFilter lc keywords types f =
     (if keywords \<noteq> []
      then lc (keyword f) \<in> set (map lc keywords) \<and>
           (types = [] \<or> set (messageTypes f) \<subseteq> set types)
      else types \<noteq> [] \<and> set (messageTypes f) \<subseteq> set types)"

text \<open>
  The callback partialUnsubscribe maps over the filters, for either shape of the request.
\<close>

definition dropCallback ::
  "(jsstring \<Rightarrow> jsstring) \<Rightarrow> jsstring list \<Rightarrow> jsstring list \<Rightarrow> KeywordFilter
     \<Rightarrow> bool \<times> jsstring list \<Rightarrow> KeywordFilter option \<times> (bool \<times> jsstring list)" where
  "dropCallback lc keywords types =
     (if length keywords > 0 then removeByKeyword lc (map lc keywords) types
      else subtractTypes types)"

text \<open>
  What one turn of the loops that fill \<open>keywordMap\<close> does to the map when it does not
  throw.
\<close>

definition accTypes ::
  "(jsstring \<Rightarrow> jsstring) \<Rightarrow> KeywordFilter \<Rightarrow> (jsstring, jsstring jsset) jsmap
     \<Rightarrow> (jsstring, jsstring jsset) jsmap" where
  "accTypes lc f m =
     mapSet (lc (keyword f))
       (fold setAdd (messageTypes f)
          (case map_of m (lc (keyword f)) of None \<Rightarrow> [] | Some s \<Rightarrow> s)) m"

text \<open>
  The elements of a list whose key was not seen before, scanning from the left with the
  keys seen so far.
\<close>

fun firstSeen :: "('a \<Rightarrow> 'k) \<Rightarrow> 'k list \<Rightarrow> 'a list \<Rightarrow> 'a list" where
  "firstSeen key seen [] = []"
| "firstSeen key seen (x # xs) =
     (if key x \<in> set seen then firstSeen key seen xs
      else x # firstSeen key (seen @ [key x]) xs)"

subsection \<open>The reference merge of the specification\<close>

text \<open>
  The specification's merge, in its words. A case-insensitive map takes a lower-cased
  keyword to the union of the message types of the existing and of the requested filters
  with that keyword. The output lists the keywords of the existing record first, in their
  order and casing, then the keywords that appear only in the request, in request order,
  each with its unioned type set. A keyword is one entry of the map: where a list spells
  it more than once, it is listed once, at its first place and in its first spelling.
\<close>

definition unionTypes ::
  "(jsstring \<Rightarrow> jsstring) \<Rightarrow> KeywordFilter list \<Rightarrow> KeywordFilter list \<Rightarrow> jsstring
     \<Rightarrow> jsstring set" where
  "unionTypes lc existing requested k =
     \<Union> (set (map (\<lambda>f. set (messageTypes f))
              (filter (\<lambda>f. lc (keyword f) = k) (existing @ requested))))"

fun firstOfEach :: "(jsstring \<Rightarrow> jsstring) \<Rightarrow> KeywordFilter list \<Rightarrow> KeywordFilter list" where
  "firstOfEach lc [] = []"
| "firstOfEach lc (f # fs) =
     f # firstOfEach lc (filter (\<lambda>g. lc (keyword g) \<noteq> lc (keyword f)) fs)"

definition referenceMerge ::
  "(jsstring \<Rightarrow> jsstring) \<Rightarrow> KeywordFilter list \<Rightarrow> KeywordFilter list
     \<Rightarrow> (jsstring \<times> jsstring set) list" where
  "referenceMerge lc existing requested =
     map (\<lambda>f. (keyword f, unionTypes lc existing requested (lc (keyword f))))
       (firstOfEach lc existing @
        firstOfEach lc
          (filter (\<lambda>f. lc (keyword f) \<notin> set (map (\<lambda>g. lc (keyword g)) existing)) requested))"

text \<open>
  Two subscribe calls of one user in a row, the second on the collection the first
  leaves.
\<close>

definition subscribeTwice ::
  "(jsstring \<Rightarrow> jsstring) \<Rightarrow> jsstring \<Rightarrow> jsstring \<Rightarrow> KeywordFilter list
     \<Rightarrow> KeywordFilter list \<Rightarrow> collection \<Rightarrow> (SubscriberConfig \<times> collection) option" where
  "subscribeTwice lc userId chan filters1 filters2 db =
     (case subscribe lc userId chan filters1 db of
        None \<Rightarrow> None
      | Some (c, db1) \<Rightarrow> subscribe lc userId chan filters2 db1)"

section \<open>Values of the worked examples\<close>

text \<open>
  The keywords U+528D (sword) and U+76FE (shield), the two message types, and the frames
  and events the examples run on.
\<close>

definition buy :: jsstring where
  "buy = js ''buy''"

definition sell :: jsstring where
  "sell = js ''sell''"

definition kwSword :: jsstring where
  "kwSword = [0x528D]"

definition kwShield :: jsstring where
  "kwShield = [0x76FE]"

definition userA :: jsstring where
  "userA = js ''user-a''"

definition userB :: jsstring where
  "userB = js ''user-b''"

definition chanA :: jsstring where
  "chanA = js ''channel-a''"

definition chanB :: jsstring where
  "chanB = js ''channel-b''"

text \<open>A collection with one record: user A, on channel A, with two filters.\<close>

definition cfgA :: SubscriberConfig where
  "cfgA = \<lparr>channelId = chanA,
           keywordFilters = [\<lparr>keyword = kwSword, messageTypes = [buy]\<rparr>,
                             \<lparr>keyword = kwShield, messageTypes = [buy, sell]\<rparr>]\<rparr>"

definition dbA :: collection where
  "dbA = [(userA, cfgA)]"

text \<open>
  The collection after user A, without a record, subscribes the sword and the shield for
  type buy on channel A, and user B, without a record, subscribes with an empty filter
  list on channel B.
\<close>

definition dbAB :: collection where
  "dbAB =
     (case subscribe toLowerCaseBasic userA chanA
             [\<lparr>keyword = kwSword, messageTypes = [buy]\<rparr>,
              \<lparr>keyword = kwShield, messageTypes = [buy]\<rparr>] [] of
        None \<Rightarrow> []
      | Some (c, db1) \<Rightarrow>
          (case subscribe toLowerCaseBasic userB chanB [] db1 of
             None \<Rightarrow> []
           | Some (c', db2) \<Rightarrow> db2))"

definition swordEvent :: Payload where
  "swordEvent = \<lparr>message_type = buy, channel = js ''CH1'', player_name = js ''Alice'',
                  player_id = js ''A001'', content = js ''WTB '' @ kwSword @ js '' +7''\<rparr>"

definition swordEventRenamed :: Payload where
  "swordEventRenamed = swordEvent\<lparr>player_name := js ''Alicia''\<rparr>"

definition freshService :: WebSocketService where
  "freshService = \<lparr>processedMessageIds = [], reconnectAttempts = 0\<rparr>"

text \<open>
  Another event, the frames that carry the events, and two states of the listener: one
  that has handled the other event only, and one that has already handled the sword
  event. The digest of these examples is the identity, which tells any two message strings
  apart.
\<close>

definition shieldEvent :: Payload where
  "shieldEvent = \<lparr>message_type = sell, channel = js ''CH2'', player_name = js ''Bob'',
                   player_id = js ''B002'', content = js ''WTS '' @ kwShield\<rparr>"

definition newMessage :: "Payload \<Rightarrow> ArtaleMessage" where
  "newMessage p = \<lparr>mtype = js ''new_message'', payload = Some p\<rparr>"

definition busyService :: WebSocketService where
  "busyService = fst (handleMessage (\<lambda>x. x) (newMessage shieldEvent) freshService)"

definition seenService :: WebSocketService where
  "seenService = fst (handleMessage (\<lambda>x. x) (newMessage swordEvent) busyService)"

section \<open>The store and the collections\<close>

text \<open>The definitions a concrete evaluation unfolds.\<close>

lemmas ex_defs = buy_def sell_def kwSword_def kwShield_def userA_def userB_def chanA_def
  chanB_def cfgA_def dbA_def js_def toLowerCaseBasic_def toLowerCaseUnit_def

lemmas pu_defs = partialUnsubscribe_def getSubscriber_def findOne_def subtractTypes_def
  removeByKeyword_def removeSubscriber_def saveSubscriberWithFilters_def dropsFilter_def
  removedAll_def typeName_def

lemma findOne_findOneAndUpdate:
  "findOne (findOneAndUpdate u c db) u' = (if u' = u then Some c else findOne db u')"
  by (induction u c db rule: findOneAndUpdate.induct) (auto simp: findOne_def)

lemma findOne_deleteOne:
  "distinct (map fst db) \<Longrightarrow>
   findOne (deleteOne u db) u' = (if u' = u then None else findOne db u')"
proof (induction db)
  case Nil
  then show ?case by (simp add: findOne_def)
next
  case (Cons p db)
  obtain k c where p: "p = (k, c)" by (cases p)
  show ?case
  proof (cases "k = u")
    case True
    then have "map_of db u = None"
      using Cons.prems p by (simp add: map_of_eq_None_iff)
    then show ?thesis using True p by (simp add: findOne_def)
  next
    case False
    then show ?thesis using Cons p by (auto simp: findOne_def)
  qed
qed

lemma set_fold_setAdd: "set (fold setAdd xs s) = set xs \<union> set s"
  by (induction xs arbitrary: s) (auto simp: setAdd_def setHas_def)

section \<open>The unit tests of the service, run on the model\<close>

text \<open>
  The cases of subscriber.service.spec.ts for the merge and for partialUnsubscribe, with
  the expected values of the tests.
\<close>

lemmas merge_defs = mergeKeywordFilters_def collectFilter_def emitFilter_def Let_def
  mapHas_def mapGet_def setAdd_def setHas_def

lemma test_merge_case_insensitive:
  "mergeKeywordFilters toLowerCaseBasic
     [\<lparr>keyword = kwSword, messageTypes = [buy]\<rparr>]
     [\<lparr>keyword = kwSword, messageTypes = [sell]\<rparr>,
      \<lparr>keyword = kwShield, messageTypes = [sell]\<rparr>]
   = Some [\<lparr>keyword = kwSword, messageTypes = [buy, sell]\<rparr>,
           \<lparr>keyword = kwShield, messageTypes = [sell]\<rparr>]"
  by (simp add: merge_defs ex_defs)

lemma test_merge_types_without_duplicates:
  "mergeKeywordFilters toLowerCaseBasic
     [\<lparr>keyword = kwSword, messageTypes = [buy]\<rparr>]
     [\<lparr>keyword = kwSword, messageTypes = [buy, sell]\<rparr>]
   = Some [\<lparr>keyword = kwSword, messageTypes = [buy, sell]\<rparr>]"
  by (simp add: merge_defs ex_defs)

lemma test_merge_latin_case:
  "mergeKeywordFilters toLowerCaseBasic
     [\<lparr>keyword = js ''Sword'', messageTypes = [buy]\<rparr>]
     [\<lparr>keyword = js ''SWORD'', messageTypes = [sell]\<rparr>,
      \<lparr>keyword = js ''Bow'', messageTypes = [sell]\<rparr>,
      \<lparr>keyword = js ''bow'', messageTypes = [buy]\<rparr>]
   = Some [\<lparr>keyword = js ''Sword'', messageTypes = [buy, sell]\<rparr>,
           \<lparr>keyword = js ''Bow'', messageTypes = [sell, buy]\<rparr>]"
  by (simp add: merge_defs ex_defs)

lemma test_remove_types_from_keyword:
  "partialUnsubscribe toLowerCaseBasic userA [kwSword] [buy]
     [(userA, \<lparr>channelId = chanA,
               keywordFilters = [\<lparr>keyword = kwSword, messageTypes = [buy, sell]\<rparr>,
                                 \<lparr>keyword = kwShield, messageTypes = [buy, sell]\<rparr>]\<rparr>)]
   = (\<lparr>success = True, remainingCount = 2,
       removedItems = [kwSword @ js '' ('' @ typeName buy @ js '')''],
       remainingFilters = [\<lparr>keyword = kwSword, messageTypes = [sell]\<rparr>,
                           \<lparr>keyword = kwShield, messageTypes = [buy, sell]\<rparr>]\<rparr>,
      [(userA, \<lparr>channelId = chanA,
                keywordFilters = [\<lparr>keyword = kwSword, messageTypes = [sell]\<rparr>,
                                  \<lparr>keyword = kwShield, messageTypes = [buy, sell]\<rparr>]\<rparr>)])"
  by (simp add: pu_defs ex_defs)

lemma test_remove_types_from_all:
  "partialUnsubscribe toLowerCaseBasic userA [] [buy]
     [(userA, \<lparr>channelId = chanA,
               keywordFilters = [\<lparr>keyword = kwSword, messageTypes = [buy, sell]\<rparr>,
                                 \<lparr>keyword = kwShield, messageTypes = [buy, sell]\<rparr>]\<rparr>)]
   = (\<lparr>success = True, remainingCount = 2,
       removedItems = [kwSword @ js '' ('' @ typeName buy @ js '')'',
                       kwShield @ js '' ('' @ typeName buy @ js '')''],
       remainingFilters = [\<lparr>keyword = kwSword, messageTypes = [sell]\<rparr>,
                           \<lparr>keyword = kwShield, messageTypes = [sell]\<rparr>]\<rparr>,
      [(userA, \<lparr>channelId = chanA,
                keywordFilters = [\<lparr>keyword = kwSword, messageTypes = [sell]\<rparr>,
                                  \<lparr>keyword = kwShield, messageTypes = [sell]\<rparr>]\<rparr>)])"
  by (simp add: pu_defs ex_defs)

lemma test_remove_last_filter:
  "partialUnsubscribe toLowerCaseBasic userA [kwSword] [buy]
     [(userA, \<lparr>channelId = chanA,
               keywordFilters = [\<lparr>keyword = kwSword, messageTypes = [buy]\<rparr>]\<rparr>)]
   = (\<lparr>success = True, remainingCount = 0,
       removedItems = [removedAll \<lparr>keyword = kwSword, messageTypes = [buy]\<rparr>],
       remainingFilters = []\<rparr>, [])"
  by (simp add: pu_defs ex_defs)

lemma test_no_matching_subscription:
  "partialUnsubscribe toLowerCaseBasic userA [kwShield] [buy]
     [(userA, \<lparr>channelId = chanA,
               keywordFilters = [\<lparr>keyword = kwSword, messageTypes = [sell]\<rparr>]\<rparr>)]
   = (\<lparr>success = False, remainingCount = 1, removedItems = [],
       remainingFilters = [\<lparr>keyword = kwSword, messageTypes = [sell]\<rparr>]\<rparr>,
      [(userA, \<lparr>channelId = chanA,
                keywordFilters = [\<lparr>keyword = kwSword, messageTypes = [sell]\<rparr>]\<rparr>)])"
  by (simp add: pu_defs ex_defs)

section \<open>Feed listener: reconnect backoff\<close>

lemma closeSequence_numeral:
  "closeSequence (numeral k) s =
     (case onClose s of
        None \<Rightarrow> None # closeSequence (pred_numeral k) s
      | Some d \<Rightarrow> Some d # closeSequence (pred_numeral k) (onReconnectTimeout s))"
  by (simp add: numeral_eq_Suc)

text \<open>
  Claim C6. The reconnect delay is the minimum of the base delay times two to the power of
  the attempt counter and the cap, with base 5000 and cap 30000; the attempts 0 to 5 give
  5000, 10000, 20000, 30000, 30000, 30000, and these are the delays of six closes in a row
  after a successful open.
\<close>

theorem reconnect_delay_backoff:
  "calculateReconnectDelay s = min (5000 * 2 ^ reconnectAttempts s) 30000 \<and>
   map (\<lambda>n. calculateReconnectDelay (s\<lparr>reconnectAttempts := n\<rparr>)) [0, 1, 2, 3, 4, 5]
     = [5000, 10000, 20000, 30000, 30000, 30000] \<and>
   closeSequence 6 (onOpen s)
     = [Some 5000, Some 10000, Some 20000, Some 30000, Some 30000, Some 30000]"
  by (simp add: closeSequence_numeral calculateReconnectDelay_def baseReconnectDelay_def
      maxReconnectDelay_def onClose_def onOpen_def onReconnectTimeout_def
      maxReconnectAttempts_def)

section \<open>Feed listener: deduplication\<close>

lemma cleanup_keeps_last:
  assumes "\<not> setHas (processedMessageIds s) x"
  shows "setHas (processedMessageIds (cleanupProcessedMessages
      (s\<lparr>processedMessageIds := setAdd x (processedMessageIds s)\<rparr>))) x"
proof -
  let ?ids = "setAdd x (processedMessageIds s)"
  have ids: "?ids = processedMessageIds s @ [x]"
    using assms by (simp add: setAdd_def)
  show ?thesis
  proof (cases "length ?ids > 1000")
    case False
    then show ?thesis using ids by (simp add: cleanupProcessedMessages_def setHas_def)
  next
    case True
    then have "length ?ids - 500 \<le> length (processedMessageIds s)"
      using ids by simp
    then have "drop (length ?ids - 500) ?ids
                 = drop (length ?ids - 500) (processedMessageIds s) @ [x]"
      using ids by simp
    then have "x \<in> set (drop (length ?ids - 500) ?ids)" by simp
    then show ?thesis
      using True by (simp add: cleanupProcessedMessages_def setHas_def set_fold_setAdd Let_def)
  qed
qed

lemma generateMessageId_cong:
  assumes "player_id p2 = player_id p1" "content p2 = content p1"
    "message_type p2 = message_type p1" "channel p2 = channel p1"
  shows "generateMessageId md5 (Some p2) = generateMessageId md5 (Some p1)"
  using assms by (simp add: generateMessageId_def)

lemma handleMessage_new:
  assumes "mtype m = js ''new_message''" "payload m = Some p"
  shows "handleMessage md5 m s =
    (if setHas (processedMessageIds s) (generateMessageId md5 (Some p)) then (s, [])
     else (cleanupProcessedMessages
             (s\<lparr>processedMessageIds :=
                  setAdd (generateMessageId md5 (Some p)) (processedMessageIds s)\<rparr>),
           [BroadcastToDiscord p]))"
  using assms by (simp add: handleMessage_def js_def Let_def)

text \<open>
  A frame whose key is already in the recent-set is dropped and leaves the state as it
  is.
\<close>

lemma handleMessage_seen:
  assumes "mtype m = js ''new_message''" "payload m = Some p"
    and "setHas (processedMessageIds s) (generateMessageId md5 (Some p))"
  shows "handleMessage md5 m s = (s, [])"
  using assms(3) by (simp add: handleMessage_new [OF assms(1,2)])

text \<open>
  Claim C5, as stated, fails. A listener that has already handled the sword event has its
  key in the recent-set; of two further frames with that event (the second with another
  player name, so agreeing on the four fields only) neither is forwarded: the pair
  dispatches zero times, not once.
\<close>

theorem duplicate_frame_counterexample:
  "snd (handleMessage (\<lambda>x. x) (newMessage swordEvent) seenService) = [] \<and>
   snd (handleMessage (\<lambda>x. x) (newMessage swordEventRenamed)
          (fst (handleMessage (\<lambda>x. x) (newMessage swordEvent) seenService))) = []"
  by (simp add: seenService_def busyService_def freshService_def newMessage_def
      handleMessage_def generateMessageId_def cleanupProcessedMessages_def setAdd_def
      setHas_def swordEvent_def swordEventRenamed_def shieldEvent_def ex_defs)

text \<open>
  Claim C5, amended. Two \<open>new_message\<close> frames whose payloads agree on player id, content,
  message type and channel, handled one after the other, dispatch at most once. The dedup
  key of both is the digest of the string made of the four fields. The first frame is
  forwarded to the dispatcher exactly when that key is not already in the recent-set;
  after the first frame the key is in the recent-set (also when the set overflowed and was
  truncated), so the second frame is always dropped and leaves the state unchanged. A new
  event delivered twice is thus dispatched exactly once, and an event whose key is already
  recorded is not dispatched again.
\<close>

theorem duplicate_frame_dispatched_at_most_once:
  assumes m1: "mtype m1 = js ''new_message''" "payload m1 = Some p1"
    and m2: "mtype m2 = js ''new_message''" "payload m2 = Some p2"
    and same: "player_id p2 = player_id p1" "content p2 = content p1"
      "message_type p2 = message_type p1" "channel p2 = channel p1"
    and key: "k = md5 (player_id p1 @ js ''-'' @ content p1 @ js ''-'' @ message_type p1 @
                       js ''-'' @ channel p1)"
  shows "generateMessageId md5 (Some p1) = k \<and> generateMessageId md5 (Some p2) = k \<and>
         snd (handleMessage md5 m1 s)
           = (if k \<in> set (processedMessageIds s) then [] else [BroadcastToDiscord p1]) \<and>
         k \<in> set (processedMessageIds (fst (handleMessage md5 m1 s))) \<and>
         handleMessage md5 m2 (fst (handleMessage md5 m1 s))
           = (fst (handleMessage md5 m1 s), [])"
proof -
  have k1: "generateMessageId md5 (Some p1) = k"
    by (simp add: generateMessageId_def key)
  have k2: "generateMessageId md5 (Some p2) = k"
    using generateMessageId_cong [OF same] k1 by simp
  let ?s1 = "fst (handleMessage md5 m1 s)"
  have first: "snd (handleMessage md5 m1 s)
           = (if k \<in> set (processedMessageIds s) then [] else [BroadcastToDiscord p1])"
    by (simp add: handleMessage_new [OF m1] k1 setHas_def)
  have seen: "setHas (processedMessageIds ?s1) k"
  proof (cases "setHas (processedMessageIds s) k")
    case True
    then show ?thesis by (simp add: handleMessage_new [OF m1] k1)
  next
    case False
    then show ?thesis
      using cleanup_keeps_last [OF False] by (simp add: handleMessage_new [OF m1] k1)
  qed
  have second: "handleMessage md5 m2 ?s1 = (?s1, [])"
    using seen by (simp add: handleMessage_new [OF m2] k2)
  show ?thesis using k1 k2 first seen second by (simp add: setHas_def)
qed

theorem duplicate_frame_dispatched_at_most_once_witness:
  "processedMessageIds busyService
     = [js ''B002-WTS '' @ kwShield @ js ''-sell-CH2''] \<and>
   snd (handleMessage (\<lambda>x. x) (newMessage swordEvent) busyService)
     = [BroadcastToDiscord swordEvent] \<and>
   processedMessageIds (fst (handleMessage (\<lambda>x. x) (newMessage swordEvent) busyService))
     = [js ''B002-WTS '' @ kwShield @ js ''-sell-CH2'',
        js ''A001-WTB '' @ kwSword @ js '' +7-buy-CH1''] \<and>
   handleMessage (\<lambda>x. x) (newMessage swordEventRenamed)
     (fst (handleMessage (\<lambda>x. x) (newMessage swordEvent) busyService))
     = (fst (handleMessage (\<lambda>x. x) (newMessage swordEvent) busyService), [])"
  using duplicate_frame_dispatched_at_most_once
    [of "newMessage swordEvent" swordEvent "newMessage swordEventRenamed" swordEventRenamed
        "js ''A001-WTB '' @ kwSword @ js '' +7-buy-CH1''" "\<lambda>x. x" busyService]
  by (simp add: busyService_def freshService_def newMessage_def
      handleMessage_def generateMessageId_def cleanupProcessedMessages_def setAdd_def
      setHas_def swordEvent_def swordEventRenamed_def shieldEvent_def ex_defs)

section \<open>Subscription engine: partialUnsubscribe\<close>

text \<open>
  Claim C8. With both the keywords and the message types empty, partialUnsubscribe
  reports failure for every user, leaves the collection as it is, and returns the filters
  the user had before the call (none for a user without a record).
\<close>

theorem partialUnsubscribe_nothing_specified:
  "partialUnsubscribe lc userId [] [] db =
     (\<lparr>success = False,
       remainingCount =
         length (case getSubscriber db userId of None \<Rightarrow> [] | Some c \<Rightarrow> keywordFilters c),
       removedItems = [],
       remainingFilters =
         (case getSubscriber db userId of None \<Rightarrow> [] | Some c \<Rightarrow> keywordFilters c)\<rparr>,
      db)"
  by (simp add: partialUnsubscribe_def split: option.splits)

lemma mapFilter_fst:
  assumes "\<And>x s. fst (cb x s) = g x"
  shows "fst (mapFilter cb xs s) = List.map_filter g xs"
proof (induction xs arbitrary: s)
  case Nil
  then show ?case by (simp add: List.map_filter_simps)
next
  case (Cons x xs)
  obtain y s' where c: "cb x s = (y, s')" by (cases "cb x s")
  then have g: "g x = y" using assms [of x s] by simp
  show ?case
    using Cons [of s'] c g
    by (cases y) (auto simp: List.map_filter_simps split: prod.splits)
qed

lemma mapFilter_changed:
  assumes "\<And>x b r. fst (snd (cb x (b, r))) = (b \<or> h x)"
  shows "fst (snd (mapFilter cb xs (b, r))) = (b \<or> (\<exists>x\<in>set xs. h x))"
proof (induction xs arbitrary: b r)
  case Nil
  then show ?case by simp
next
  case (Cons x xs)
  obtain y b' r' where c: "cb x (b, r) = (y, b', r')" by (cases "cb x (b, r)") auto
  then have h: "b' = (b \<or> h x)" using assms [of x b r] by simp
  show ?case
    using Cons [of b' r'] c h
    by (cases y) (auto split: prod.splits)
qed

lemma subtractTypes_fst: "fst (subtractTypes types f st) = fst (subtractTypes types f (False, []))"
  by (simp add: subtractTypes_def Let_def)

lemma dropCallback_fst:
  "fst (dropCallback lc keywords types f st) = fst (dropCallback lc keywords types f (False, []))"
  using subtractTypes_fst [of types f st]
  by (simp add: dropCallback_def removeByKeyword_def)

lemma subtractTypes_changed:
  "fst (snd (subtractTypes types f (b, r))) = (b \<or> fst (subtractTypes types f (False, [])) \<noteq> Some f)"
  by (auto simp: subtractTypes_def Let_def dest: arg_cong [where f = messageTypes])

lemma dropCallback_changed:
  "fst (snd (dropCallback lc keywords types f (b, r)))
     = (b \<or> fst (dropCallback lc keywords types f (False, [])) \<noteq> Some f)"
  using subtractTypes_changed [of types f b r]
  by (simp add: dropCallback_def removeByKeyword_def)

lemma mapFilter_items:
  assumes "\<And>x b r. snd (snd (cb x (b, r))) = r @ it x"
  shows "snd (snd (mapFilter cb xs (b, r))) = r @ concat (map it xs)"
proof (induction xs arbitrary: b r)
  case Nil
  then show ?case by simp
next
  case (Cons x xs)
  obtain y b' r' where c: "cb x (b, r) = (y, b', r')" by (cases "cb x (b, r)") auto
  then have h: "r' = r @ it x" using assms [of x b r] by simp
  show ?case
    using Cons [of b' r'] c h
    by (cases y) (auto split: prod.splits)
qed

lemma set_map_filter: "set (List.map_filter g xs) = {y. \<exists>x\<in>set xs. g x = Some y}"
  by (induction xs) (auto simp: List.map_filter_simps split: option.splits)

lemma map_filter_Nil_iff: "List.map_filter g xs = [] \<longleftrightarrow> (\<forall>x\<in>set xs. g x = None)"
  by (induction xs) (auto simp: List.map_filter_simps split: option.splits)

lemma filter_notin_Nil_iff: "filter (\<lambda>t. t \<notin> set types) xs = [] \<longleftrightarrow> set xs \<subseteq> set types"
  by (auto simp: filter_empty_conv)

lemma dropCallback_None_iff:
  assumes "\<not> (keywords = [] \<and> types = [])"
  shows "fst (dropCallback lc keywords types f (False, [])) = None
           \<longleftrightarrow> dropsFilter lc keywords types f"
  using assms
  by (auto simp: dropCallback_def removeByKeyword_def subtractTypes_def dropsFilter_def Let_def
      filter_notin_Nil_iff)

lemma dropCallback_Some_other:
  assumes "dropsFilter lc keywords types f"
  shows "fst (dropCallback lc keywords types g (False, [])) \<noteq> Some f"
proof
  assume a: "fst (dropCallback lc keywords types g (False, [])) = Some f"
  have ne: "\<not> (keywords = [] \<and> types = [])" using assms by (auto simp: dropsFilter_def)
  have notNone: "fst (dropCallback lc keywords types f (False, [])) = None"
    using dropCallback_None_iff [OF ne] assms by simp
  show False
  proof (cases "g = f")
    case True
    then show ?thesis using a notNone by simp
  next
    case False
    then have "types \<noteq> []" and kw: "keyword f = keyword g"
      and mt: "messageTypes f = filter (\<lambda>t. t \<notin> set types) (messageTypes g)"
      and nonempty: "filter (\<lambda>t. t \<notin> set types) (messageTypes g) \<noteq> []"
      using a
      by (auto simp: dropCallback_def removeByKeyword_def subtractTypes_def Let_def
          split: if_splits)
    moreover have "set (messageTypes f) \<subseteq> set types"
      using assms \<open>types \<noteq> []\<close> by (auto simp: dropsFilter_def split: if_splits)
    ultimately have "set (filter (\<lambda>t. t \<notin> set types) (messageTypes g)) \<subseteq> set types"
      by simp
    then have "filter (\<lambda>t. t \<notin> set types) (messageTypes g) = []"
      by (auto simp: filter_empty_conv)
    then show ?thesis using nonempty by simp
  qed
qed

lemma partialUnsubscribe_outcome:
  assumes "getSubscriber db u = Some cfg" "keywordFilters cfg \<noteq> []"
    "\<not> (keywords = [] \<and> types = [])"
  shows "partialUnsubscribe lc u keywords types db =
    (case mapFilter (dropCallback lc keywords types) (keywordFilters cfg) (False, []) of
       (updatedFilters, hasChanges, removed) \<Rightarrow>
         if \<not> hasChanges
         then (\<lparr>success = False, remainingCount = length (keywordFilters cfg),
                removedItems = [], remainingFilters = keywordFilters cfg\<rparr>, db)
         else if length updatedFilters = 0
         then (\<lparr>success = True, remainingCount = 0, removedItems = removed,
                remainingFilters = []\<rparr>, removeSubscriber u db)
         else (\<lparr>success = True, remainingCount = length updatedFilters,
                removedItems = removed, remainingFilters = updatedFilters\<rparr>,
               saveSubscriberWithFilters u (channelId cfg) updatedFilters False db))"
  using assms by (auto simp: partialUnsubscribe_def dropCallback_def)

lemma getSubscriber_save:
  "getSubscriber (saveSubscriberWithFilters u chan fs merge db) u'
     = (if u' = u then Some \<lparr>channelId = chan, keywordFilters = fs\<rparr> else getSubscriber db u')"
  by (simp add: getSubscriber_def saveSubscriberWithFilters_def findOne_findOneAndUpdate
      split: option.splits)

lemma getSubscriber_remove:
  "distinct (map fst db) \<Longrightarrow>
   getSubscriber (removeSubscriber u db) u' = (if u' = u then None else getSubscriber db u')"
  by (simp add: getSubscriber_def removeSubscriber_def findOne_deleteOne)

lemma dropCallback_items:
  "snd (snd (dropCallback lc keywords types f (b, r)))
     = r @ snd (snd (dropCallback lc keywords types f (False, [])))"
  by (simp add: dropCallback_def removeByKeyword_def subtractTypes_def Let_def)

lemma dropCallback_items_dropped:
  assumes "dropsFilter lc keywords types f"
  shows "snd (snd (dropCallback lc keywords types f (False, []))) = [removedAll f]"
  using assms
  by (auto simp: dropCallback_def removeByKeyword_def subtractTypes_def Let_def dropsFilter_def
      filter_notin_Nil_iff split: if_splits)


text \<open>
  Claim C7. For a user with a record (user ids being unique in the collection), a
  partialUnsubscribe that drops a filter of the record whole, which is what a type
  subtraction that empties the filter's type set does, succeeds, and the filter is not in
  the remaining sequence. When the request drops every filter of the record, the last
  one included, the record is deleted from the store and the remaining count is 0;
  otherwise the record is saved with the remaining filters.
\<close>

theorem partialUnsubscribe_drops_filter:
  assumes rec: "getSubscriber db userId = Some cfg"
    and mem: "f \<in> set (keywordFilters cfg)"
    and drops: "dropsFilter lc keywords types f"
    and wf: "distinct (map fst db)"
    and res: "partialUnsubscribe lc userId keywords types db = (r, db')"
  shows "success r \<and> f \<notin> set (remainingFilters r) \<and>
         remainingCount r = length (remainingFilters r) \<and>
         removedAll f \<in> set (removedItems r) \<and>
         (if \<forall>g\<in>set (keywordFilters cfg). dropsFilter lc keywords types g
          then remainingFilters r = [] \<and> remainingCount r = 0 \<and>
               db' = removeSubscriber userId db \<and> getSubscriber db' userId = None
          else remainingFilters r \<noteq> [] \<and>
               getSubscriber db' userId
                 = Some \<lparr>channelId = channelId cfg, keywordFilters = remainingFilters r\<rparr>)"
proof -
  let ?fs = "keywordFilters cfg"
  let ?cb = "dropCallback lc keywords types"
  let ?g = "\<lambda>x. fst (?cb x (False, []))"
  have ne: "\<not> (keywords = [] \<and> types = [])" using drops by (auto simp: dropsFilter_def)
  have fs: "?fs \<noteq> []" using mem by auto
  obtain upd ch rm where mf: "mapFilter ?cb ?fs (False, []) = (upd, ch, rm)"
    by (cases "mapFilter ?cb ?fs (False, [])") auto
  have upd: "upd = List.map_filter ?g ?fs"
    using mapFilter_fst [where cb = ?cb and g = ?g and xs = ?fs and s = "(False, [])",
        OF dropCallback_fst] mf by simp
  have gf: "?g f = None" using dropCallback_None_iff [OF ne] drops by simp
  have "ch = (False \<or> (\<exists>x\<in>set ?fs. ?g x \<noteq> Some x))"
    using mapFilter_changed [where cb = ?cb and h = "\<lambda>x. ?g x \<noteq> Some x" and b = False
        and r = "[]" and xs = ?fs, OF dropCallback_changed] mf by simp
  then have ch: "ch" using gf mem by auto
  have "rm = [] @ concat (map (\<lambda>x. snd (snd (?cb x (False, [])))) ?fs)"
    using mapFilter_items [where cb = ?cb and it = "\<lambda>x. snd (snd (?cb x (False, [])))"
        and b = False and r = "[]" and xs = ?fs, OF dropCallback_items] mf
    by simp
  moreover have "removedAll f \<in> set (snd (snd (?cb f (False, []))))"
    by (simp add: dropCallback_items_dropped [OF drops])
  ultimately have rm: "removedAll f \<in> set rm"
    using mem by fastforce
  have out: "(r, db') =
     (if upd = []
      then (\<lparr>success = True, remainingCount = 0, removedItems = rm,
             remainingFilters = []\<rparr>, removeSubscriber userId db)
      else (\<lparr>success = True, remainingCount = length upd,
             removedItems = rm, remainingFilters = upd\<rparr>,
            saveSubscriberWithFilters userId (channelId cfg) upd False db))"
    using partialUnsubscribe_outcome [OF rec fs ne, of lc] mf ch res by simp
  have rf: "remainingFilters r = upd" and s: "success r"
    and rc: "remainingCount r = length upd" and ri: "removedItems r = rm"
    using out by (auto split: if_splits)
  have notin: "f \<notin> set upd"
    using dropCallback_Some_other [OF drops] by (simp add: upd set_map_filter)
  have all: "(\<forall>g\<in>set ?fs. dropsFilter lc keywords types g) \<longleftrightarrow> upd = []"
    using dropCallback_None_iff [OF ne] by (simp add: upd map_filter_Nil_iff)
  have del: "upd = [] \<Longrightarrow> db' = removeSubscriber userId db \<and> getSubscriber db' userId = None"
    using out getSubscriber_remove [OF wf] by simp
  have sav: "upd \<noteq> [] \<Longrightarrow> getSubscriber db' userId
                 = Some \<lparr>channelId = channelId cfg, keywordFilters = upd\<rparr>"
    using out getSubscriber_save by simp
  show ?thesis
    using rf s rc ri rm notin all del sav by auto
qed

theorem partialUnsubscribe_drops_filter_witness:
  "partialUnsubscribe toLowerCaseBasic userA [] [buy] dbA
     = (\<lparr>success = True, remainingCount = 1,
         removedItems = [removedAll \<lparr>keyword = kwSword, messageTypes = [buy]\<rparr>,
                         kwShield @ js '' ('' @ typeName buy @ js '')''],
         remainingFilters = [\<lparr>keyword = kwShield, messageTypes = [sell]\<rparr>]\<rparr>,
        [(userA, \<lparr>channelId = chanA,
                  keywordFilters = [\<lparr>keyword = kwShield, messageTypes = [sell]\<rparr>]\<rparr>)]) \<and>
   \<lparr>keyword = kwSword, messageTypes = [buy]\<rparr>
     \<notin> set (remainingFilters (fst (partialUnsubscribe toLowerCaseBasic userA [] [buy] dbA))) \<and>
   partialUnsubscribe toLowerCaseBasic userA [js ''Ring''] []
       [(userA, \<lparr>channelId = chanA,
                 keywordFilters = [\<lparr>keyword = js ''ring'', messageTypes = [buy, sell]\<rparr>]\<rparr>)]
     = (\<lparr>success = True, remainingCount = 0,
         removedItems = [removedAll \<lparr>keyword = js ''ring'', messageTypes = [buy, sell]\<rparr>],
         remainingFilters = []\<rparr>, []) \<and>
   getSubscriber
     (snd (partialUnsubscribe toLowerCaseBasic userA [js ''Ring''] []
        [(userA, \<lparr>channelId = chanA,
                  keywordFilters = [\<lparr>keyword = js ''ring'', messageTypes = [buy, sell]\<rparr>]\<rparr>)]))
     userA = None"
  using partialUnsubscribe_drops_filter
      [of dbA userA cfgA "\<lparr>keyword = kwSword, messageTypes = [buy]\<rparr>" toLowerCaseBasic
          "[]" "[buy]" "fst (partialUnsubscribe toLowerCaseBasic userA [] [buy] dbA)"
          "snd (partialUnsubscribe toLowerCaseBasic userA [] [buy] dbA)"]
    partialUnsubscribe_drops_filter
      [of "[(userA, \<lparr>channelId = chanA,
                  keywordFilters = [\<lparr>keyword = js ''ring'', messageTypes = [buy, sell]\<rparr>]\<rparr>)]"
          userA
          "\<lparr>channelId = chanA,
            keywordFilters = [\<lparr>keyword = js ''ring'', messageTypes = [buy, sell]\<rparr>]\<rparr>"
          "\<lparr>keyword = js ''ring'', messageTypes = [buy, sell]\<rparr>" toLowerCaseBasic
          "[js ''Ring'']" "[]"
          "fst (partialUnsubscribe toLowerCaseBasic userA [js ''Ring''] []
             [(userA, \<lparr>channelId = chanA,
                  keywordFilters = [\<lparr>keyword = js ''ring'', messageTypes = [buy, sell]\<rparr>]\<rparr>)])"
          "snd (partialUnsubscribe toLowerCaseBasic userA [js ''Ring''] []
             [(userA, \<lparr>channelId = chanA,
                  keywordFilters = [\<lparr>keyword = js ''ring'', messageTypes = [buy, sell]\<rparr>]\<rparr>)])"]
  by (simp add: ex_defs pu_defs)

section \<open>Subscription engine: merge\<close>

lemma map_of_mapSet: "map_of (mapSet k v m) = (map_of m)(k \<mapsto> v)"
  by (induction k v m rule: mapSet.induct) auto

lemma mapSet_mapSet: "mapSet k v (mapSet k v' m) = mapSet k v m"
  by (induction k v' m rule: mapSet.induct) auto

lemma forEachM_total:
  assumes "\<And>x s. x \<in> set xs \<Longrightarrow> body x s = Some (g x s)"
  shows "forEachM body xs s = Some (fold g xs s)"
  using assms by (induction xs arbitrary: s) auto

lemma addTypes_total:
  "mapGet m k = Some s \<Longrightarrow> addTypes k ts m = Some (mapSet k (fold setAdd ts s) m)"
proof (induction ts arbitrary: m s)
  case Nil
  then show ?case
    by (induction k s m rule: mapSet.induct) (auto simp: mapGet_def split: if_splits)
next
  case (Cons t ts)
  have "mapGet (mapSet k (setAdd t s) m) k = Some (setAdd t s)"
    by (simp add: mapGet_def map_of_mapSet)
  from Cons.IH [OF this] Cons.prems show ?case
    by (simp add: mapSet_mapSet)
qed

lemma collectFilter_total: "collectFilter lc f m = Some (accTypes lc f m)"
proof (cases "map_of m (lc (keyword f))")
  case None
  then have "mapGet (mapSet (lc (keyword f)) [] m) (lc (keyword f)) = Some []"
    by (simp add: mapGet_def map_of_mapSet)
  from addTypes_total [OF this] None show ?thesis
    by (simp add: collectFilter_def accTypes_def mapHas_def mapSet_mapSet)
next
  case (Some s)
  then have "mapGet m (lc (keyword f)) = Some s" by (simp add: mapGet_def)
  from addTypes_total [OF this] Some show ?thesis
    by (simp add: collectFilter_def accTypes_def mapHas_def)
qed

lemma map_of_accTypes:
  "map_of (accTypes lc f m) k =
     (if k = lc (keyword f)
      then Some (fold setAdd (messageTypes f) (case map_of m k of None \<Rightarrow> [] | Some s \<Rightarrow> s))
      else map_of m k)"
  by (simp add: accTypes_def map_of_mapSet)

lemma map_of_fold_accTypes:
  "map_of (fold (accTypes lc) fs m) k =
     (if k \<in> set (map (\<lambda>f. lc (keyword f)) fs) \<or> map_of m k \<noteq> None
      then Some (fold setAdd
                   (concat (map messageTypes (filter (\<lambda>f. lc (keyword f) = k) fs)))
                   (case map_of m k of None \<Rightarrow> [] | Some s \<Rightarrow> s))
      else None)"
proof (induction fs arbitrary: m)
  case Nil
  then show ?case by (auto split: option.splits)
next
  case (Cons f fs)
  show ?case
    by (auto simp: Cons.IH map_of_accTypes split: option.splits)
qed

lemma emitFilter_seen:
  "lc (keyword f) \<in> set seen \<Longrightarrow> emitFilter lc km f (res, seen) = Some (res, seen)"
  by (simp add: emitFilter_def setHas_def)

lemma emitFilter_new:
  "lc (keyword f) \<notin> set seen \<Longrightarrow> mapGet km (lc (keyword f)) = Some t \<Longrightarrow>
   emitFilter lc km f (res, seen)
     = Some (res @ [\<lparr>keyword = keyword f, messageTypes = t\<rparr>], seen @ [lc (keyword f)])"
  by (simp add: emitFilter_def setHas_def setAdd_def)

lemma emitFilter_fold:
  assumes "\<And>f. f \<in> set fs \<Longrightarrow> mapGet km (lc (keyword f)) = Some (ty (lc (keyword f)))"
  shows "forEachM (emitFilter lc km) fs (res, seen) =
     Some (res @ map (\<lambda>f. \<lparr>keyword = keyword f, messageTypes = ty (lc (keyword f))\<rparr>)
                   (firstSeen (\<lambda>f. lc (keyword f)) seen fs),
           seen @ map (\<lambda>f. lc (keyword f)) (firstSeen (\<lambda>f. lc (keyword f)) seen fs))"
  using assms
proof (induction fs arbitrary: res seen)
  case Nil
  then show ?case by simp
next
  case (Cons f fs)
  have km: "mapGet km (lc (keyword f)) = Some (ty (lc (keyword f)))"
    using Cons.prems by simp
  have rest: "\<And>g. g \<in> set fs \<Longrightarrow> mapGet km (lc (keyword g)) = Some (ty (lc (keyword g)))"
    using Cons.prems by simp
  show ?case
  proof (cases "lc (keyword f) \<in> set seen")
    case True
    then show ?thesis
      using Cons.IH [OF rest] by (simp add: emitFilter_seen)
  next
    case False
    then show ?thesis
      using Cons.IH [OF rest] by (simp add: emitFilter_new [where lc = lc, OF False km])
  qed
qed

lemma firstSeen_cong_set:
  "set seen = set seen' \<Longrightarrow> firstSeen key seen xs = firstSeen key seen' xs"
proof (induction xs arbitrary: seen seen')
  case Nil
  then show ?case by simp
next
  case (Cons x xs)
  have a: "firstSeen key seen xs = firstSeen key seen' xs"
    using Cons.prems by (rule Cons.IH)
  have b: "firstSeen key (seen @ [key x]) xs = firstSeen key (seen' @ [key x]) xs"
    by (rule Cons.IH) (simp add: Cons.prems)
  show ?case using a b Cons.prems by simp
qed

lemma set_keys_firstSeen:
  "set (map key (firstSeen key seen xs)) = key ` set xs - set seen"
  by (induction xs arbitrary: seen) auto

lemma distinct_keys_firstSeen: "distinct (map key (firstSeen key seen xs))"
proof (induction xs arbitrary: seen)
  case Nil
  then show ?case by simp
next
  case (Cons x xs)
  have "key x \<notin> set (map key (firstSeen key (seen @ [key x]) xs))"
    unfolding set_keys_firstSeen by simp
  then show ?case using Cons.IH by simp
qed

lemma firstSeen_firstOfEach:
  "firstSeen (\<lambda>f. lc (keyword f)) seen fs
     = firstOfEach lc (filter (\<lambda>f. lc (keyword f) \<notin> set seen) fs)"
proof (induction fs arbitrary: seen)
  case Nil
  then show ?case by simp
next
  case (Cons f fs)
  show ?case
  proof (cases "lc (keyword f) \<in> set seen")
    case True
    then show ?thesis using Cons.IH by simp
  next
    case False
    have "filter (\<lambda>g. lc (keyword g) \<notin> set (seen @ [lc (keyword f)])) fs
            = filter (\<lambda>g. lc (keyword g) \<noteq> lc (keyword f))
                (filter (\<lambda>g. lc (keyword g) \<notin> set seen) fs)"
      by (auto intro: filter_cong)
    then show ?thesis using False Cons.IH [of "seen @ [lc (keyword f)]"] by simp
  qed
qed

lemma mergeKeywordFilters_closed:
  "mergeKeywordFilters lc existing newFilters =
     Some (map (\<lambda>f. \<lparr>keyword = keyword f,
                       messageTypes = fold setAdd
                         (concat (map messageTypes
                            (filter (\<lambda>g. lc (keyword g) = lc (keyword f))
                               (existing @ newFilters)))) []\<rparr>)
             (firstSeen (\<lambda>f. lc (keyword f)) [] existing @
              firstSeen (\<lambda>f. lc (keyword f)) (map (\<lambda>f. lc (keyword f)) existing) newFilters))"
proof -
  let ?key = "\<lambda>f. lc (keyword f)"
  define ty where "ty = (\<lambda>k. fold setAdd
               (concat (map messageTypes (filter (\<lambda>g. lc (keyword g) = k) (existing @ newFilters)))) [])"
  define km where "km = fold (accTypes lc) newFilters (fold (accTypes lc) existing [])"
  have c1: "forEachM (collectFilter lc) existing [] = Some (fold (accTypes lc) existing [])"
    by (rule forEachM_total) (rule collectFilter_total)
  have c2: "forEachM (collectFilter lc) newFilters (fold (accTypes lc) existing []) = Some km"
    unfolding km_def by (rule forEachM_total) (rule collectFilter_total)
  have km: "km = fold (accTypes lc) (existing @ newFilters) []" by (simp add: km_def)
  have get: "\<And>f. f \<in> set (existing @ newFilters) \<Longrightarrow> mapGet km (?key f) = Some (ty (?key f))"
    unfolding km mapGet_def map_of_fold_accTypes ty_def by auto
  define mk :: "KeywordFilter \<Rightarrow> KeywordFilter" where "mk = (\<lambda>f. \<lparr>keyword = keyword f, messageTypes = ty (lc (keyword f))\<rparr>)"
  define e1 where "e1 = firstSeen ?key [] existing"
  define e2 where "e2 = firstSeen ?key (map ?key e1) newFilters"
  have s1: "forEachM (emitFilter lc km) existing ([], []) = Some (map mk e1, map ?key e1)"
    using emitFilter_fold [where lc = lc and km = km and ty = ty and fs = existing
        and res = "[]" and seen = "[]"] get
    by (simp add: mk_def e1_def)
  have s2: "forEachM (emitFilter lc km) newFilters (map mk e1, map ?key e1)
              = Some (map mk e1 @ map mk e2, map ?key e1 @ map ?key e2)"
    using emitFilter_fold [where lc = lc and km = km and ty = ty and fs = newFilters
        and res = "map mk e1" and seen = "map ?key e1"] get
    by (simp add: mk_def e2_def)
  have "set (map ?key e1) = set (map ?key existing)"
    unfolding e1_def set_keys_firstSeen by simp
  then have seen: "e2 = firstSeen ?key (map ?key existing) newFilters"
    unfolding e2_def by (rule firstSeen_cong_set)
  have "mergeKeywordFilters lc existing newFilters = Some (map mk (e1 @ e2))"
    by (simp add: mergeKeywordFilters_def c1 c2 s1 s2)
  then show ?thesis
    unfolding seen e1_def mk_def ty_def .
qed

lemma subscribe_new:
  "getSubscriber db u = None \<Longrightarrow>
   subscribe lc u chan fs db =
     Some (\<lparr>channelId = chan, keywordFilters = fs\<rparr>,
           saveSubscriberWithFilters u chan fs False db)"
  by (simp add: subscribe_def)

lemma subscribe_existing:
  "getSubscriber db u = Some cfg \<Longrightarrow>
   mergeKeywordFilters lc (keywordFilters cfg) fs = Some merged \<Longrightarrow>
   subscribe lc u chan fs db =
     Some (\<lparr>channelId = chan, keywordFilters = merged\<rparr>,
           saveSubscriberWithFilters u chan merged True db)"
  by (simp add: subscribe_def)

lemma set_fold_setAdd_Nil: "set (fold setAdd xs []) = set xs"
  by (simp add: set_fold_setAdd)

lemma distinct_fold_setAdd: "distinct s \<Longrightarrow> distinct (fold setAdd xs s)"
  by (induction xs arbitrary: s) (auto simp: setAdd_def setHas_def)

lemma referenceMerge_closed:
  "map (\<lambda>f. (keyword f, set (messageTypes f)))
     (map (\<lambda>f. \<lparr>keyword = keyword f,
                  messageTypes = fold setAdd
                    (concat (map messageTypes
                       (filter (\<lambda>g. lc (keyword g) = lc (keyword f))
                          (existing @ requested)))) []\<rparr>)
        (firstSeen (\<lambda>f. lc (keyword f)) [] existing @
         firstSeen (\<lambda>f. lc (keyword f)) (map (\<lambda>f. lc (keyword f)) existing) requested))
   = referenceMerge lc existing requested"
  by (simp add: referenceMerge_def unionTypes_def firstSeen_firstOfEach set_fold_setAdd_Nil
      del: map_append filter_append)


lemma firstOfEach_distinct:
  "distinct (map (\<lambda>f. lc (keyword f)) fs) \<Longrightarrow> firstOfEach lc fs = fs"
proof (induction fs)
  case Nil
  then show ?case by simp
next
  case (Cons f fs)
  from Cons.prems have "lc (keyword f) \<notin> (\<lambda>g. lc (keyword g)) ` set fs"
    by simp
  then have "\<forall>g\<in>set fs. lc (keyword g) \<noteq> lc (keyword f)"
    by (metis imageI)
  then have "filter (\<lambda>g. lc (keyword g) \<noteq> lc (keyword f)) fs = fs"
    by (simp add: filter_id_conv)
  then show ?case using Cons by simp
qed

lemma referenceMerge_distinct:
  assumes "distinct (map (\<lambda>f. lc (keyword f)) existing)"
    and "distinct (map (\<lambda>f. lc (keyword f)) requested)"
  shows "referenceMerge lc existing requested =
     map (\<lambda>f. (keyword f, unionTypes lc existing requested (lc (keyword f))))
       (existing @
        filter (\<lambda>f. lc (keyword f) \<notin> set (map (\<lambda>g. lc (keyword g)) existing)) requested)"
proof -
  have "distinct (map (\<lambda>f. lc (keyword f))
          (filter (\<lambda>f. lc (keyword f) \<notin> set (map (\<lambda>g. lc (keyword g)) existing)) requested))"
    using assms(2) by (rule distinct_map_filter)
  then show ?thesis
    using assms(1) by (simp add: referenceMerge_def firstOfEach_distinct)
qed

text \<open>
  Claim C3. When the user has a record, subscribe returns and stores the merge of the
  record's filters with the requested ones, and this merge is the reference merge of the
  specification: the same keywords in the same order and casing, each with the same set
  of message types. When neither list repeats a keyword, these are all filters of the
  record followed by the requested filters whose keyword the record does not have.
\<close>

theorem subscribe_merge_is_reference:
  assumes rec: "getSubscriber db userId = Some cfg"
  shows "\<exists>merged db'.
           subscribe lc userId chan requested db
             = Some (\<lparr>channelId = chan, keywordFilters = merged\<rparr>, db') \<and>
           getSubscriber db' userId = Some \<lparr>channelId = chan, keywordFilters = merged\<rparr> \<and>
           map (\<lambda>f. (keyword f, set (messageTypes f))) merged
             = referenceMerge lc (keywordFilters cfg) requested \<and>
           (distinct (map (\<lambda>f. lc (keyword f)) (keywordFilters cfg)) \<and>
            distinct (map (\<lambda>f. lc (keyword f)) requested) \<longrightarrow>
            map (\<lambda>f. (keyword f, set (messageTypes f))) merged
              = map (\<lambda>f. (keyword f,
                            unionTypes lc (keywordFilters cfg) requested (lc (keyword f))))
                  (keywordFilters cfg @
                   filter (\<lambda>f. lc (keyword f)
                                 \<notin> set (map (\<lambda>g. lc (keyword g)) (keywordFilters cfg)))
                     requested))"
proof -
  obtain merged where m: "mergeKeywordFilters lc (keywordFilters cfg) requested = Some merged"
    and r: "map (\<lambda>f. (keyword f, set (messageTypes f))) merged
              = referenceMerge lc (keywordFilters cfg) requested"
    using mergeKeywordFilters_closed [of lc "keywordFilters cfg" requested]
      referenceMerge_closed [of lc "keywordFilters cfg" requested] by simp
  have "getSubscriber (saveSubscriberWithFilters userId chan merged True db) userId
          = Some \<lparr>channelId = chan, keywordFilters = merged\<rparr>"
    by (simp add: getSubscriber_save)
  then show ?thesis
    using subscribe_existing [OF rec m, of chan] r
      referenceMerge_distinct [of lc "keywordFilters cfg" requested]
    by auto
qed

theorem subscribe_merge_is_reference_witness:
  "\<exists>merged db'.
     subscribe toLowerCaseBasic userA chanB
       [\<lparr>keyword = kwShield, messageTypes = [sell]\<rparr>,
        \<lparr>keyword = js ''Bow'', messageTypes = [sell]\<rparr>,
        \<lparr>keyword = js ''bow'', messageTypes = [buy]\<rparr>] dbA
       = Some (\<lparr>channelId = chanB, keywordFilters = merged\<rparr>, db') \<and>
     map (\<lambda>f. (keyword f, set (messageTypes f))) merged
       = [(kwSword, {buy}), (kwShield, {buy, sell}), (js ''Bow'', {sell, buy})]"
  using subscribe_merge_is_reference [of dbA userA cfgA toLowerCaseBasic chanB
      "[\<lparr>keyword = kwShield, messageTypes = [sell]\<rparr>,
        \<lparr>keyword = js ''Bow'', messageTypes = [sell]\<rparr>,
        \<lparr>keyword = js ''bow'', messageTypes = [buy]\<rparr>]"]
  by (auto simp: ex_defs getSubscriber_def findOne_def referenceMerge_def unionTypes_def)

lemma merge_same_keyword:
  assumes "t1 \<noteq> t2"
  shows "mergeKeywordFilters lc [\<lparr>keyword = A, messageTypes = [t1]\<rparr>]
           [\<lparr>keyword = A, messageTypes = [t2]\<rparr>]
         = Some [\<lparr>keyword = A, messageTypes = [t1, t2]\<rparr>]"
  using assms by (simp add: mergeKeywordFilters_closed setAdd_def setHas_def)

lemma subscribeTwice_same_keyword:
  assumes none: "getSubscriber db userId = None" and ne: "t1 \<noteq> t2"
  shows "\<exists>db'. subscribeTwice lc userId chan [\<lparr>keyword = A, messageTypes = [t1]\<rparr>]
                  [\<lparr>keyword = A, messageTypes = [t2]\<rparr>] db
                = Some (\<lparr>channelId = chan,
                         keywordFilters = [\<lparr>keyword = A, messageTypes = [t1, t2]\<rparr>]\<rparr>, db') \<and>
               getSubscriber db' userId
                = Some \<lparr>channelId = chan,
                        keywordFilters = [\<lparr>keyword = A, messageTypes = [t1, t2]\<rparr>]\<rparr>"
proof -
  let ?f1 = "[\<lparr>keyword = A, messageTypes = [t1]\<rparr>]"
  let ?db1 = "saveSubscriberWithFilters userId chan ?f1 False db"
  have first: "subscribe lc userId chan ?f1 db = Some (\<lparr>channelId = chan, keywordFilters = ?f1\<rparr>, ?db1)"
    by (rule subscribe_new [OF none])
  have rec: "getSubscriber ?db1 userId = Some \<lparr>channelId = chan, keywordFilters = ?f1\<rparr>"
    by (simp add: getSubscriber_save)
  have m: "mergeKeywordFilters lc (keywordFilters \<lparr>channelId = chan, keywordFilters = ?f1\<rparr>)
             [\<lparr>keyword = A, messageTypes = [t2]\<rparr>]
           = Some [\<lparr>keyword = A, messageTypes = [t1, t2]\<rparr>]"
    using merge_same_keyword [OF ne] by simp
  show ?thesis
    using subscribe_existing [OF rec m, of chan] first
    by (simp add: subscribeTwice_def getSubscriber_save)
qed


text \<open>
  Claim C9. For a user without a record, subscribing a keyword with type buy and then with
  type sell, and subscribing it with sell and then with buy, both end with a single filter
  for the keyword, returned and stored, whose message types are buy and sell as a set.
\<close>

theorem subscribe_type_union_commutes:
  assumes none: "getSubscriber db userId = None"
  shows "\<exists>types1 types2 db1 db2.
           subscribeTwice lc userId chan [\<lparr>keyword = A, messageTypes = [buy]\<rparr>]
               [\<lparr>keyword = A, messageTypes = [sell]\<rparr>] db
             = Some (\<lparr>channelId = chan,
                      keywordFilters = [\<lparr>keyword = A, messageTypes = types1\<rparr>]\<rparr>, db1) \<and>
           subscribeTwice lc userId chan [\<lparr>keyword = A, messageTypes = [sell]\<rparr>]
               [\<lparr>keyword = A, messageTypes = [buy]\<rparr>] db
             = Some (\<lparr>channelId = chan,
                      keywordFilters = [\<lparr>keyword = A, messageTypes = types2\<rparr>]\<rparr>, db2) \<and>
           getSubscriber db1 userId
             = Some \<lparr>channelId = chan,
                     keywordFilters = [\<lparr>keyword = A, messageTypes = types1\<rparr>]\<rparr> \<and>
           getSubscriber db2 userId
             = Some \<lparr>channelId = chan,
                     keywordFilters = [\<lparr>keyword = A, messageTypes = types2\<rparr>]\<rparr> \<and>
           set types1 = {buy, sell} \<and> set types2 = {buy, sell}"
proof -
  have ne: "buy \<noteq> sell" "sell \<noteq> buy" by (simp_all add: buy_def sell_def js_def)
  obtain db1 where 1: "subscribeTwice lc userId chan [\<lparr>keyword = A, messageTypes = [buy]\<rparr>]
               [\<lparr>keyword = A, messageTypes = [sell]\<rparr>] db
             = Some (\<lparr>channelId = chan,
                      keywordFilters = [\<lparr>keyword = A, messageTypes = [buy, sell]\<rparr>]\<rparr>, db1)"
    and g1: "getSubscriber db1 userId = Some \<lparr>channelId = chan,
                      keywordFilters = [\<lparr>keyword = A, messageTypes = [buy, sell]\<rparr>]\<rparr>"
    using subscribeTwice_same_keyword [OF none ne(1)] by blast
  obtain db2 where 2: "subscribeTwice lc userId chan [\<lparr>keyword = A, messageTypes = [sell]\<rparr>]
               [\<lparr>keyword = A, messageTypes = [buy]\<rparr>] db
             = Some (\<lparr>channelId = chan,
                      keywordFilters = [\<lparr>keyword = A, messageTypes = [sell, buy]\<rparr>]\<rparr>, db2)"
    and g2: "getSubscriber db2 userId = Some \<lparr>channelId = chan,
                      keywordFilters = [\<lparr>keyword = A, messageTypes = [sell, buy]\<rparr>]\<rparr>"
    using subscribeTwice_same_keyword [OF none ne(2)] by blast
  have "set [buy, sell] = {buy, sell}" "set [sell, buy] = {buy, sell}" by auto
  then show ?thesis using 1 2 g1 g2 by blast
qed


theorem subscribe_type_union_commutes_witness:
  "subscribeTwice toLowerCaseBasic userA chanA [\<lparr>keyword = kwSword, messageTypes = [buy]\<rparr>]
       [\<lparr>keyword = kwSword, messageTypes = [sell]\<rparr>] []
     = Some (\<lparr>channelId = chanA,
              keywordFilters = [\<lparr>keyword = kwSword, messageTypes = [buy, sell]\<rparr>]\<rparr>,
             [(userA, \<lparr>channelId = chanA,
                keywordFilters = [\<lparr>keyword = kwSword, messageTypes = [buy, sell]\<rparr>]\<rparr>)]) \<and>
   subscribeTwice toLowerCaseBasic userA chanA [\<lparr>keyword = kwSword, messageTypes = [sell]\<rparr>]
       [\<lparr>keyword = kwSword, messageTypes = [buy]\<rparr>] []
     = Some (\<lparr>channelId = chanA,
              keywordFilters = [\<lparr>keyword = kwSword, messageTypes = [sell, buy]\<rparr>]\<rparr>,
             [(userA, \<lparr>channelId = chanA,
                keywordFilters = [\<lparr>keyword = kwSword, messageTypes = [sell, buy]\<rparr>]\<rparr>)]) \<and>
   set [buy, sell] = set [sell, buy]"
  using subscribe_type_union_commutes [of "[]" userA toLowerCaseBasic chanA kwSword]
  by (simp add: ex_defs getSubscriber_def findOne_def saveSubscriberWithFilters_def
      subscribeTwice_def subscribe_def mergeKeywordFilters_closed setAdd_def setHas_def
      insert_commute)

lemma subscribe_total:
  "\<exists>c db'. subscribe lc userId chan fs db = Some (c, db') \<and> channelId c = chan \<and>
            getSubscriber db' userId = Some c"
proof (cases "getSubscriber db userId")
  case None
  then show ?thesis using subscribe_new [OF None] by (simp add: getSubscriber_save)
next
  case (Some cfg)
  obtain merged where "mergeKeywordFilters lc (keywordFilters cfg) fs = Some merged"
    using mergeKeywordFilters_closed by blast
  from subscribe_existing [OF Some this] show ?thesis by (simp add: getSubscriber_save)
qed

lemma partialUnsubscribe_cases:
  assumes rec: "getSubscriber db userId = Some cfg"
    and res: "partialUnsubscribe lc userId keywords types db = (r, db')"
  shows "(\<not> success r \<and> db' = db) \<or>
         (success r \<and> remainingFilters r = [] \<and> db' = removeSubscriber userId db) \<or>
         (success r \<and> remainingFilters r \<noteq> [] \<and>
          db' = saveSubscriberWithFilters userId (channelId cfg) (remainingFilters r) False db)"
  using assms
  by (auto simp: partialUnsubscribe_def split: if_splits prod.splits)


text \<open>
  Claim C10. For a user with a record, a successful partialUnsubscribe that leaves a filter
  saves the record with the channel it had and the remaining filters; whatever the
  outcome, a record of the user after the call has the old channel (user ids being unique
  in the collection). A subscribe of the same user stores the caller's channel instead.
\<close>

theorem partialUnsubscribe_keeps_channelId:
  assumes rec: "getSubscriber db userId = Some cfg"
    and res: "partialUnsubscribe lc userId keywords types db = (r, db')"
  shows "(success r \<and> remainingFilters r \<noteq> [] \<longrightarrow>
            getSubscriber db' userId
              = Some \<lparr>channelId = channelId cfg, keywordFilters = remainingFilters r\<rparr>) \<and>
         (distinct (map fst db) \<longrightarrow>
            getSubscriber db' userId = None \<or>
            map_option channelId (getSubscriber db' userId) = Some (channelId cfg)) \<and>
         (\<exists>c db''. subscribe lc userId chan fs db = Some (c, db'') \<and> channelId c = chan \<and>
            getSubscriber db'' userId = Some c)"
  using partialUnsubscribe_cases [OF rec res] rec subscribe_total [of lc userId chan fs db]
  by (auto simp: getSubscriber_save getSubscriber_remove)

theorem partialUnsubscribe_keeps_channelId_witness:
  "getSubscriber (snd (partialUnsubscribe toLowerCaseBasic userA [] [buy] dbA)) userA
     = Some \<lparr>channelId = chanA,
             keywordFilters = [\<lparr>keyword = kwShield, messageTypes = [sell]\<rparr>]\<rparr> \<and>
   (\<exists>c db''. subscribe toLowerCaseBasic userA chanB [] dbA = Some (c, db'') \<and>
      channelId c = chanB \<and> getSubscriber db'' userA = Some c)"
  using partialUnsubscribe_keeps_channelId
      [of dbA userA cfgA toLowerCaseBasic "[]" "[buy]"
          "fst (partialUnsubscribe toLowerCaseBasic userA [] [buy] dbA)"
          "snd (partialUnsubscribe toLowerCaseBasic userA [] [buy] dbA)" chanB "[]"]
  by (simp add: ex_defs pu_defs)

section \<open>Subscription engine: unique keywords\<close>

text \<open>
  Where the invariant of the record holds: the merge of subscribe on an existing record
  always returns filters with pairwise different lower-cased keywords, and
  partialUnsubscribe keeps the keywords different when they were.
\<close>

lemma merge_keywords_distinct:
  assumes "mergeKeywordFilters lc existing newFilters = Some merged"
  shows "distinct (map (\<lambda>f. lc (keyword f)) merged)"
proof -
  let ?key = "\<lambda>f. lc (keyword f)"
  let ?e = "firstSeen ?key [] existing"
  let ?n = "firstSeen ?key (map ?key existing) newFilters"
  have "map ?key merged = map ?key ?e @ map ?key ?n"
    using assms unfolding mergeKeywordFilters_closed by (auto simp: comp_def)
  moreover have "set (map ?key ?e) \<inter> set (map ?key ?n) = {}"
    unfolding set_keys_firstSeen by auto
  ultimately show ?thesis
    using distinct_keys_firstSeen [of ?key "[]" existing]
      distinct_keys_firstSeen [of ?key "map ?key existing" newFilters]
    by simp
qed

lemma subscribe_existing_distinct:
  assumes "getSubscriber db u = Some cfg" "subscribe lc u chan fs db = Some (c, db')"
  shows "distinct (map (\<lambda>f. lc (keyword f)) (keywordFilters c))"
  using assms merge_keywords_distinct [of lc "keywordFilters cfg" fs]
  by (auto simp: subscribe_def split: option.splits)

lemma distinct_map_filter_keys:
  assumes "\<And>x y. g x = Some y \<Longrightarrow> key y = key x" "distinct (map key xs)"
  shows "distinct (map key (List.map_filter g xs))"
  using assms(2)
proof (induction xs)
  case Nil
  then show ?case by (simp add: List.map_filter_simps)
next
  case (Cons x xs)
  have "key ` set (List.map_filter g xs) \<subseteq> key ` set xs"
    using assms(1) by (force simp: set_map_filter)
  then show ?case
    using Cons assms(1) by (auto simp: List.map_filter_simps split: option.splits)
qed

lemma dropCallback_keyword:
  "fst (dropCallback lc keywords types f (False, [])) = Some g \<Longrightarrow> keyword g = keyword f"
  by (auto simp: dropCallback_def removeByKeyword_def subtractTypes_def Let_def
      split: if_splits)

lemma partialUnsubscribe_preserves_distinct:
  assumes rec: "getSubscriber db u = Some cfg"
    and dist: "distinct (map (\<lambda>f. lc (keyword f)) (keywordFilters cfg))"
    and res: "partialUnsubscribe lc u keywords types db = (r, db')"
  shows "distinct (map (\<lambda>f. lc (keyword f)) (remainingFilters r))"
proof (cases "keywordFilters cfg = [] \<or> (keywords = [] \<and> types = [])")
  case True
  then show ?thesis using rec res dist by (auto simp: partialUnsubscribe_def split: if_splits)
next
  case False
  let ?fs = "keywordFilters cfg"
  let ?cb = "dropCallback lc keywords types"
  let ?g = "\<lambda>x. fst (?cb x (False, []))"
  obtain upd ch rm where mf: "mapFilter ?cb ?fs (False, []) = (upd, ch, rm)"
    by (cases "mapFilter ?cb ?fs (False, [])") auto
  have upd: "upd = List.map_filter ?g ?fs"
    using mapFilter_fst [where cb = ?cb and g = ?g and xs = ?fs and s = "(False, [])",
        OF dropCallback_fst] mf by simp
  have "distinct (map (\<lambda>f. lc (keyword f)) upd)"
    unfolding upd
    by (rule distinct_map_filter_keys [OF _ dist]) (simp add: dropCallback_keyword)
  moreover have "remainingFilters r = ?fs \<or> remainingFilters r = [] \<or> remainingFilters r = upd"
    using partialUnsubscribe_outcome [of db u cfg "keywords" "types" lc] rec False mf res
    by (auto split: if_splits)
  ultimately show ?thesis using dist by auto
qed

text \<open>
  Claim C1. No two filters of a record have the same lower-cased keyword after a subscribe,
  also when the record is created from a request that repeats a keyword. The code at such
  a request, keywords Sword and sword for type buy from a user without a record: the
  request is returned and stored as it is, two filters with the lower-cased keyword
  sword.
\<close>

theorem subscribe_new_record_keeps_duplicates:
  "subscribe toLowerCaseBasic userA chanA
     [\<lparr>keyword = js ''Sword'', messageTypes = [buy]\<rparr>,
      \<lparr>keyword = js ''sword'', messageTypes = [buy]\<rparr>] []
   = Some (\<lparr>channelId = chanA,
            keywordFilters = [\<lparr>keyword = js ''Sword'', messageTypes = [buy]\<rparr>,
                              \<lparr>keyword = js ''sword'', messageTypes = [buy]\<rparr>]\<rparr>,
           [(userA, \<lparr>channelId = chanA,
                     keywordFilters = [\<lparr>keyword = js ''Sword'', messageTypes = [buy]\<rparr>,
                                       \<lparr>keyword = js ''sword'', messageTypes = [buy]\<rparr>]\<rparr>)]) \<and>
   map (\<lambda>f. toLowerCaseBasic (keyword f))
     [\<lparr>keyword = js ''Sword'', messageTypes = [buy]\<rparr>,
      \<lparr>keyword = js ''sword'', messageTypes = [buy]\<rparr>]
   = [js ''sword'', js ''sword'']"
  by (simp add: subscribe_def getSubscriber_def findOne_def saveSubscriberWithFilters_def
      js_def toLowerCaseBasic_def toLowerCaseUnit_def)

section \<open>Fan-out dispatcher\<close>

lemma strIncludes_iff: "strIncludes s t \<longleftrightarrow> (\<exists>pre post. s = pre @ t @ post)"
proof -
  have "strIncludes s t \<longleftrightarrow> sublist t s"
    by (induction s) (auto simp: sublist_Cons_right)
  then show ?thesis by (simp add: sublist_def)
qed

lemma matchFilter_match:
  "matchFilter lc p f reasons =
     (if message_type p \<in> set (messageTypes f) \<and>
         (\<exists>pre post. lc (content p) = pre @ lc (keyword f) @ post)
      then reasons @ [keyword f @ js '' ('' @ typeName (message_type p) @ js '')'']
      else reasons)"
  by (simp add: matchFilter_def strIncludes_iff)

lemma fold_matchFilter:
  "fold (matchFilter lc p) fs reasons =
     reasons @ map (\<lambda>f. keyword f @ js '' ('' @ typeName (message_type p) @ js '')'')
       (filter (\<lambda>f. message_type p \<in> set (messageTypes f) \<and>
                     (\<exists>pre post. lc (content p) = pre @ lc (keyword f) @ post)) fs)"
  by (induction fs arbitrary: reasons) (simp_all add: matchFilter_match)

lemma matchReasons_filter:
  "matchReasons lc p fs =
     map (\<lambda>f. keyword f @ js '' ('' @ typeName (message_type p) @ js '')'')
       (filter (\<lambda>f. message_type p \<in> set (messageTypes f) \<and>
                     (\<exists>pre post. lc (content p) = pre @ lc (keyword f) @ post)) fs)"
  using fold_matchFilter [of lc p fs "[]"] by (cases fs) (simp_all add: matchReasons_def del: fold_simps)


text \<open>
  Claim C4. The dispatcher counts a filter as a match exactly when the event's message type
  is among the filter's message types and the lower-cased keyword occurs in the lower-cased
  content; the reasons of a record are those of its matching filters, in order. The filter
  sword for type buy matches the buy event with content Selling Sword+10 and does not
  match the sell event with that content.
\<close>

theorem dispatcher_match_iff:
  "matchFilter lc p f reasons =
     (if message_type p \<in> set (messageTypes f) \<and>
         (\<exists>pre post. lc (content p) = pre @ lc (keyword f) @ post)
      then reasons @ [keyword f @ js '' ('' @ typeName (message_type p) @ js '')'']
      else reasons) \<and>
   matchReasons lc p fs =
     map (\<lambda>f. keyword f @ js '' ('' @ typeName (message_type p) @ js '')'')
       (filter (\<lambda>f. message_type p \<in> set (messageTypes f) \<and>
                     (\<exists>pre post. lc (content p) = pre @ lc (keyword f) @ post)) fs) \<and>
   matchReasons toLowerCaseBasic
       \<lparr>message_type = buy, channel = js ''CH1'', player_name = js ''Bob'',
        player_id = js ''B002'', content = js ''Selling Sword+10''\<rparr>
       [\<lparr>keyword = js ''sword'', messageTypes = [buy]\<rparr>]
     = [js ''sword ('' @ [0x6536, 0x8CFC] @ js '')''] \<and>
   matchReasons toLowerCaseBasic
       \<lparr>message_type = sell, channel = js ''CH1'', player_name = js ''Bob'',
        player_id = js ''B002'', content = js ''Selling Sword+10''\<rparr>
       [\<lparr>keyword = js ''sword'', messageTypes = [buy]\<rparr>]
     = []"
proof -
  have "matchReasons toLowerCaseBasic
       \<lparr>message_type = buy, channel = js ''CH1'', player_name = js ''Bob'',
        player_id = js ''B002'', content = js ''Selling Sword+10''\<rparr>
       [\<lparr>keyword = js ''sword'', messageTypes = [buy]\<rparr>]
     = [js ''sword ('' @ [0x6536, 0x8CFC] @ js '')'']"
    by (simp add: matchReasons_def matchFilter_def ex_defs typeName_def)
  moreover have "matchReasons toLowerCaseBasic
       \<lparr>message_type = sell, channel = js ''CH1'', player_name = js ''Bob'',
        player_id = js ''B002'', content = js ''Selling Sword+10''\<rparr>
       [\<lparr>keyword = js ''sword'', messageTypes = [buy]\<rparr>]
     = []"
    by (simp add: matchReasons_def matchFilter_def ex_defs typeName_def)
  ultimately show ?thesis
    using matchFilter_match [of lc p f reasons] matchReasons_filter [of lc p fs] by simp
qed

lemma dbAB_eval:
  "dbAB = [(userA, \<lparr>channelId = chanA,
                    keywordFilters = [\<lparr>keyword = kwSword, messageTypes = [buy]\<rparr>,
                                      \<lparr>keyword = kwShield, messageTypes = [buy]\<rparr>]\<rparr>),
           (userB, \<lparr>channelId = chanB, keywordFilters = []\<rparr>)]"
  by (simp add: dbAB_def subscribe_def getSubscriber_def findOne_def
      saveSubscriberWithFilters_def userA_def userB_def js_def)

lemma scenario_dispatch:
  "broadcastToDiscord toLowerCaseBasic swordEvent dbAB
     = [(chanA, js ''<@user-a> - '' @ kwSword @ js '' ('' @ [0x6536, 0x8CFC] @ js '')'')]"
  by (simp add: dbAB_eval broadcastToDiscord_def channelToUsersWithReasons_def
      getAllSubscribers_def processSubscriber_def matchReasons_def matchFilter_def
      mapHas_def mapGet_def swordEvent_def typeName_def ex_defs)

text \<open>
  Claim C2, as stated, fails. User B, who subscribed with no prior record and an empty
  filter list, has a record with no filter; the buy event whose content contains the
  sword keyword is dispatched to channel A alone, with A's reason text, and not to
  channel B.
\<close>

theorem empty_filter_list_counterexample:
  "getSubscriber dbAB userB = Some \<lparr>channelId = chanB, keywordFilters = []\<rparr> \<and>
   broadcastToDiscord toLowerCaseBasic swordEvent dbAB
     = [(chanA, js ''<@user-a> - '' @ kwSword @ js '' ('' @ [0x6536, 0x8CFC] @ js '')'')] \<and>
   chanB \<notin> fst ` set (broadcastToDiscord toLowerCaseBasic swordEvent dbAB)"
  by (simp add: scenario_dispatch)
    (simp add: dbAB_eval getSubscriber_def findOne_def ex_defs)

lemma map_of_processSubscriber:
  "map_of (processSubscriber lc p (u, c) m) ch =
     (if matchReasons lc p (keywordFilters c) \<noteq> [] \<and> channelId c = ch
      then Some ((case map_of m ch of None \<Rightarrow> [] | Some old \<Rightarrow> old) @
                 [(u, join (js '', '') (matchReasons lc p (keywordFilters c)))])
      else map_of m ch)"
  by (auto simp: processSubscriber_def Let_def mapHas_def mapGet_def map_of_mapSet
      split: option.splits)

lemma matchReasons_Nil_iff:
  "matchReasons lc p fs \<noteq> [] \<longleftrightarrow>
     (\<exists>f\<in>set fs. message_type p \<in> set (messageTypes f) \<and>
        (\<exists>pre post. lc (content p) = pre @ lc (keyword f) @ post))"
  by (simp add: matchReasons_filter filter_empty_conv)

lemma map_of_fold_processSubscriber:
  "map_of (fold (processSubscriber lc p) subs m) ch =
     (let grp = map (\<lambda>(u, c). (u, join (js '', '') (matchReasons lc p (keywordFilters c))))
                  (filter (\<lambda>(u, c). matchReasons lc p (keywordFilters c) \<noteq> [] \<and>
                                      channelId c = ch) subs)
      in if grp = [] then map_of m ch
         else Some ((case map_of m ch of None \<Rightarrow> [] | Some old \<Rightarrow> old) @ grp))"
proof (induction subs arbitrary: m)
  case Nil
  then show ?case by simp
next
  case (Cons s subs)
  obtain u c where s: "s = (u, c)" by (cases s)
  show ?case
    using Cons.IH [of "processSubscriber lc p (u, c) m"]
    by (auto simp: s map_of_processSubscriber Let_def split: option.splits)
qed

text \<open>
  Claim C2, amended. The dispatcher puts a user into the group of the user's channel
  exactly when one of the user's filters matches the event, with the reasons of the
  matching filters; a channel gets a message exactly when some user of that channel has a
  matching filter. A user whose record has no filter is never in a group: such a record
  receives no broadcast. In the scenario, the buy event whose content contains the sword
  keyword is dispatched to channel A only, with A's reason text.
\<close>

theorem dispatch_only_on_match:
  "map_of (channelToUsersWithReasons lc p (getAllSubscribers db)) ch =
     (let grp = map (\<lambda>(u, c). (u, join (js '', '') (matchReasons lc p (keywordFilters c))))
                  (filter (\<lambda>(u, c).
                       (\<exists>f\<in>set (keywordFilters c).
                          message_type p \<in> set (messageTypes f) \<and>
                          (\<exists>pre post. lc (content p) = pre @ lc (keyword f) @ post)) \<and>
                       channelId c = ch)
                     (getAllSubscribers db))
      in if grp = [] then None else Some grp) \<and>
   (ch \<in> fst ` set (broadcastToDiscord lc p db) \<longleftrightarrow>
      (\<exists>(u, c)\<in>set (getAllSubscribers db).
         channelId c = ch \<and>
         (\<exists>f\<in>set (keywordFilters c).
            message_type p \<in> set (messageTypes f) \<and>
            (\<exists>pre post. lc (content p) = pre @ lc (keyword f) @ post)))) \<and>
   (keywordFilters c = [] \<longrightarrow> processSubscriber lc p (u, c) m = m) \<and>
   broadcastToDiscord toLowerCaseBasic swordEvent dbAB
     = [(chanA, js ''<@user-a> - '' @ kwSword @ js '' ('' @ [0x6536, 0x8CFC] @ js '')'')]"
proof -
  let ?match = "\<lambda>c. \<exists>f\<in>set (keywordFilters c).
                          message_type p \<in> set (messageTypes f) \<and>
                          (\<exists>pre post. lc (content p) = pre @ lc (keyword f) @ post)"
  let ?grp = "map (\<lambda>(u, c). (u, join (js '', '') (matchReasons lc p (keywordFilters c))))
                  (filter (\<lambda>(u, c). ?match c \<and> channelId c = ch) (getAllSubscribers db))"
  have a: "map_of (channelToUsersWithReasons lc p (getAllSubscribers db)) ch =
     (if ?grp = [] then None else Some ?grp)"
    unfolding channelToUsersWithReasons_def map_of_fold_processSubscriber matchReasons_Nil_iff
    by (simp add: Let_def)
  have "fst ` set (broadcastToDiscord lc p db)
          = fst ` set (channelToUsersWithReasons lc p (getAllSubscribers db))"
    by (force simp: broadcastToDiscord_def)
  then have "ch \<in> fst ` set (broadcastToDiscord lc p db) \<longleftrightarrow>
      ch \<in> dom (map_of (channelToUsersWithReasons lc p (getAllSubscribers db)))"
    by (simp add: dom_map_of_conv_image_fst)
  also have "\<dots> \<longleftrightarrow> ?grp \<noteq> []"
    using a by (auto simp: dom_def)
  also have "\<dots> \<longleftrightarrow> (\<exists>(u, c)\<in>set (getAllSubscribers db). channelId c = ch \<and> ?match c)"
    unfolding map_is_Nil_conv filter_empty_conv by blast
  finally have b: "ch \<in> fst ` set (broadcastToDiscord lc p db) \<longleftrightarrow>
      (\<exists>(u, c)\<in>set (getAllSubscribers db). channelId c = ch \<and> ?match c)" .
  have c: "keywordFilters c = [] \<longrightarrow> processSubscriber lc p (u, c) m = m"
    by (simp add: processSubscriber_def matchReasons_def)
  show ?thesis using a b c scenario_dispatch by (simp add: Let_def)
qed

theorem dispatch_only_on_match_witness:
  "map_of (channelToUsersWithReasons toLowerCaseBasic swordEvent (getAllSubscribers dbAB)) chanA
     = Some [(userA, kwSword @ js '' ('' @ [0x6536, 0x8CFC] @ js '')'')] \<and>
   map_of (channelToUsersWithReasons toLowerCaseBasic swordEvent (getAllSubscribers dbAB)) chanB
     = None \<and>
   processSubscriber toLowerCaseBasic swordEvent (userB, \<lparr>channelId = chanB, keywordFilters = []\<rparr>) []
     = []"
  using dispatch_only_on_match [of toLowerCaseBasic swordEvent dbAB chanA
      "\<lparr>channelId = chanB, keywordFilters = []\<rparr>" userB "[]"]
    dispatch_only_on_match [of toLowerCaseBasic swordEvent dbAB chanB
      "\<lparr>channelId = chanB, keywordFilters = []\<rparr>" userB "[]"]
  by (simp add: dbAB_eval channelToUsersWithReasons_def
      getAllSubscribers_def processSubscriber_def matchReasons_def matchFilter_def
      mapHas_def mapGet_def swordEvent_def typeName_def ex_defs)

end
